theory Spec2Isabelle
  imports Main "HOL-Library.Word"
begin

section \<open>Python and NumPy primitives used by \<^verbatim>\<open>day17/intcode.py\<close>\<close>

text \<open>
  The interpreter defines no exception class of its own: every failure is an exception of
  the Python runtime or of NumPy. The constructors name the exception class and the
  operation that raises it.
  \<^item> \<open>IndexError_out_of_bounds\<close>: NumPy's IndexError, an index outside \<open>[-n, n)\<close> of an
    array of size \<open>n\<close> (also \<open>args[-1]\<close> on an empty array);
  \<^item> \<open>IndexError_pop_empty\<close>: IndexError of \<open>list.pop\<close> on an empty list;
  \<^item> \<open>KeyError\<close>: \<open>self.opcode_dict[opcode]\<close> with an opcode that is not a key;
  \<^item> \<open>ValueError_int_literal\<close>: \<open>int('-')\<close>;
  \<^item> \<open>ValueError_unpack\<close>: tuple unpacking of an array that is too short;
  \<^item> \<open>ValueError_broadcast\<close>: a slice assignment whose shapes do not broadcast;
  \<^item> \<open>TypeError_not_int\<close>: \<open>None\<close> stored into an int64 array;
  \<^item> \<open>OverflowError_int64\<close>: a Python int outside the int64 range converted to int64.
\<close>

datatype error =
    IndexError_out_of_bounds
  | IndexError_pop_empty
  | KeyError
  | ValueError_int_literal
  | ValueError_unpack
  | ValueError_broadcast
  | TypeError_not_int
  | OverflowError_int64

text \<open>
  Integer indexing of a one-dimensional array or list of size \<open>n\<close>: an index in
  \<open>[0, n)\<close> is used as it is, an index in \<open>[-n, 0)\<close> counts from the end, any other
  index raises IndexError.
\<close>

definition np_index :: "nat \<Rightarrow> int \<Rightarrow> error + nat" where
  "np_index n i =
     (if - int n \<le> i \<and> i < int n
      then Inr (nat (if i < 0 then i + int n else i))
      else Inl IndexError_out_of_bounds)"

definition getitem :: "'a list \<Rightarrow> int \<Rightarrow> error + 'a" where
  "getitem xs i = (case np_index (length xs) i of Inl e \<Rightarrow> Inl e | Inr k \<Rightarrow> Inr (xs ! k))"

definition setitem :: "'a list \<Rightarrow> int \<Rightarrow> 'a \<Rightarrow> error + 'a list" where
  "setitem xs i v =
     (case np_index (length xs) i of Inl e \<Rightarrow> Inl e | Inr k \<Rightarrow> Inr (xs[k := v]))"

text \<open>
  A slice \<open>xs[start:stop]\<close>: a negative bound counts from the end, and both bounds are
  clamped to \<open>[0, n]\<close>; an empty or inverted range gives the empty sequence, never an
  error.
\<close>

definition slice_bound :: "nat \<Rightarrow> int \<Rightarrow> nat" where
  "slice_bound n i = (if i < 0 then nat (max (i + int n) 0) else min (nat i) n)"

definition py_slice :: "'a list \<Rightarrow> int \<Rightarrow> int \<Rightarrow> 'a list" where
  "py_slice xs start stop =
     (let s = slice_bound (length xs) start; e = slice_bound (length xs) stop
      in take (e - s) (drop s xs))"

text \<open>\<open>str\<close> of an integer: decimal digits, most significant first, with a leading minus sign.\<close>

function digits :: "int \<Rightarrow> string" where
  "digits n =
     (if n < 10 then [''0123456789'' ! nat n]
      else digits (n div 10) @ [''0123456789'' ! nat (n mod 10)])"
  by pat_completeness auto
termination
  by (relation "measure nat") auto

declare digits.simps [simp del]

definition py_str :: "int \<Rightarrow> string" where
  "py_str i = (if i < 0 then CHR ''-'' # digits (- i) else digits i)"

text \<open>\<open>int\<close> of a string, for the strings \<open>str\<close> produces: digits with an optional minus sign.\<close>

definition digit_value :: "char \<Rightarrow> nat option" where
  "digit_value c =
     map_of [(CHR ''0'', 0), (CHR ''1'', 1), (CHR ''2'', 2), (CHR ''3'', 3), (CHR ''4'', 4),
             (CHR ''5'', 5), (CHR ''6'', 6), (CHR ''7'', 7), (CHR ''8'', 8), (CHR ''9'', 9)] c"

fun digits_value :: "nat \<Rightarrow> string \<Rightarrow> error + nat" where
  "digits_value acc [] = Inr acc"
| "digits_value acc (c # cs) =
     (case digit_value c of
        None \<Rightarrow> Inl ValueError_int_literal
      | Some d \<Rightarrow> digits_value (10 * acc + d) cs)"

definition py_int :: "string \<Rightarrow> error + int" where
  "py_int s =
     (if s = [] then Inl ValueError_int_literal
      else if hd s = CHR ''-''
      then (if tl s = [] then Inl ValueError_int_literal
            else case digits_value 0 (tl s) of Inl e \<Rightarrow> Inl e | Inr v \<Rightarrow> Inr (- int v))
      else case digits_value 0 s of Inl e \<Rightarrow> Inl e | Inr v \<Rightarrow> Inr (int v))"

text \<open>The list comprehension \<open>[int(x) for x in s]\<close>: the first failing character raises.\<close>

fun int_each :: "string \<Rightarrow> error + nat list" where
  "int_each [] = Inr []"
| "int_each (c # cs) =
     (case digit_value c of
        None \<Rightarrow> Inl ValueError_int_literal
      | Some d \<Rightarrow> (case int_each cs of Inl e \<Rightarrow> Inl e | Inr ds \<Rightarrow> Inr (d # ds)))"

section \<open>The state of an \<^verbatim>\<open>IntcodeComputer\<close>\<close>

text \<open>
  \<open>code\<close> is the NumPy array \<open>self.code\<close> of dtype int64 (the default \<open>dtype\<close>): its cells
  are 64-bit words, \<open>+\<close> and \<open>*\<close> wrap around and \<open>sint\<close> reads a cell. \<open>relative_base\<close>
  starts as 0 and only ever has int64 cells added to it, so it is a 64-bit word too.
  \<open>pointer\<close> starts as the Python int 0 and becomes an int64 cell at a jump; it is modelled
  as an integer: the dispatch loop reads \<open>self.code[self.pointer]\<close> before every
  instruction, so an instruction only runs with \<open>pointer\<close> in \<open>[-n, n)\<close> for the array size
  \<open>n\<close>, and the advance by at most 4 cannot leave the int64 range (NumPy allocates no array
  of \<open>2^63 - 4\<close> cells). \<open>input\<close> is the list \<open>self.input\<close>, whose elements are what the caller
  passed: Python ints or \<open>None\<close>. \<open>output_log\<close> is the list \<open>self.output\<close> (the field cannot
  be called \<open>output\<close> in Isabelle).
\<close>

record machine =
  code :: "64 word list"
  pointer :: int
  relative_base :: "64 word"
  input :: "int option list"
  output_log :: "64 word list"
  allow_pausing :: bool
  unpaused_flag :: bool
  continue_flag :: bool

text \<open>
  The three run states of the specification, read from the two flags: the loop of \<open>run\<close>
  continues while \<open>continue_flag and unpaused_flag\<close>.
\<close>

datatype status = Running | Paused | Halted

definition status_of :: "machine \<Rightarrow> status" where
  "status_of m =
     (if \<not> continue_flag m then Halted else if unpaused_flag m then Running else Paused)"

section \<open>Construction\<close>

text \<open>
  \<open>__init__\<close> with a list as \<open>fname\<close>: \<open>self.output = []\<close>, \<open>self.relative_base = 0\<close>,
  \<open>self.unpaused_flag = True\<close>, \<open>self.code = np.zeros(code_size)\<close>, then
  \<open>initialize_code\<close>. \<open>np.array(code, dtype='int')\<close> raises OverflowError for an element
  outside the int64 range. \<open>self.code[:len(init_code)] = init_code\<close> assigns to a slice of
  \<open>min (len init_code) code_size\<close> cells: NumPy broadcasts the value to the slice, which
  succeeds when the lengths are equal or the value has exactly one element, and raises
  ValueError otherwise. Before the first \<open>run\<close>, \<open>self.input\<close> is still the method of that
  name and no queue exists; the model starts the queue empty. \<open>code_size\<close> is a natural number: \<open>np.zeros\<close> rejects a negative size.
\<close>

definition in_int64 :: "int \<Rightarrow> bool" where
  "in_int64 i = (- (2 ^ 63) \<le> i \<and> i < 2 ^ 63)"

definition initialize_code :: "machine \<Rightarrow> int list \<Rightarrow> error + machine" where
  "initialize_code m prog =
     (if \<not> list_all in_int64 prog then Inl OverflowError_int64
      else let init_code = map word_of_int prog :: 64 word list;
               target = min (length init_code) (length (code m))
           in if length init_code = target
              then Inr (m\<lparr>code := init_code @ drop target (code m),
                         pointer := 0, continue_flag := True\<rparr>)
              else if length init_code = 1
              then Inr (m\<lparr>code := replicate target (hd init_code) @ drop target (code m),
                         pointer := 0, continue_flag := True\<rparr>)
              else Inl ValueError_broadcast)"

definition init :: "int list \<Rightarrow> bool \<Rightarrow> nat \<Rightarrow> error + machine" where
  "init fname allow_pausing_arg code_size =
     initialize_code
       \<lparr>code = replicate code_size 0, pointer = 0, relative_base = 0, input = [],
        output_log = [], allow_pausing = allow_pausing_arg, unpaused_flag = True,
        continue_flag = True\<rparr>
       fname"

section \<open>Decoding\<close>

text \<open>
  \<open>parse_full_opcode\<close>: \<open>parameters = [int(x) for x in str(full_opcode)[:-2][::-1]]\<close> and
  \<open>opcode = int(str(full_opcode)[-2:])\<close>. The parameters are computed first.
\<close>

definition parse_full_opcode :: "64 word \<Rightarrow> error + (nat list \<times> int)" where
  "parse_full_opcode full_opcode =
     (let s = py_str (sint full_opcode)
      in case int_each (rev (take (length s - 2) s)) of
           Inl e \<Rightarrow> Inl e
         | Inr parameters \<Rightarrow>
             (case py_int (drop (length s - 2) s) of
                Inl e \<Rightarrow> Inl e
              | Inr opcode \<Rightarrow> Inr (parameters, opcode)))"

definition check_modes_length :: "nat list \<Rightarrow> nat \<Rightarrow> nat list" where
  "check_modes_length modes num_args =
     (if length modes < num_args then modes @ replicate (num_args - length modes) 0
      else modes)"

text \<open>
  The loop \<open>for i in range(len(args) - 1)\<close> of \<open>follow_pointers\<close>, over the indices still
  to visit: a read that fails raises and ends the loop.
\<close>

fun deref_loop :: "machine \<Rightarrow> nat list \<Rightarrow> 64 word list \<Rightarrow> nat list \<Rightarrow> error + 64 word list" where
  "deref_loop m modes args [] = Inr args"
| "deref_loop m modes args (i # rest) =
     (let arg = args ! i; mode = modes ! i
      in if mode = 0
         then (case getitem (code m) (sint arg) of
                 Inl e \<Rightarrow> Inl e
               | Inr v \<Rightarrow> deref_loop m modes (args[i := v]) rest)
         else if mode = 2
         then (case getitem (code m) (sint (relative_base m + arg)) of
                 Inl e \<Rightarrow> Inl e
               | Inr v \<Rightarrow> deref_loop m modes (args[i := v]) rest)
         else deref_loop m modes args rest)"

text \<open>
  The operand cells of the instruction at the pointer, the slice
  \<open>self.code[self.pointer+1:self.pointer+1+num_args]\<close>: fewer than \<open>num_args\<close> cells
  where the slice reaches the end of the array.
\<close>

definition operand_cells :: "machine \<Rightarrow> nat \<Rightarrow> 64 word list" where
  "operand_cells m num_args =
     py_slice (code m) (pointer m + 1) (pointer m + 1 + int num_args)"

definition follow_pointers :: "machine \<Rightarrow> nat list \<Rightarrow> nat \<Rightarrow> bool \<Rightarrow> error + 64 word list" where
  "follow_pointers m modes0 num_args has_output =
     (let modes = check_modes_length modes0 num_args;
          args0 = operand_cells m num_args
      in case deref_loop m modes args0 [0..<length args0 - 1] of
           Inl e \<Rightarrow> Inl e
         | Inr args \<Rightarrow>
             (if args = [] then Inl IndexError_out_of_bounds
              else let last_arg = last args; last_mode = last modes
                   in if has_output
                      then (if last_mode = 2
                            then Inr (args[length args - 1 := last_arg + relative_base m])
                            else Inr args)
                      else if last_mode = 0
                      then (case getitem (code m) (sint last_arg) of
                              Inl e \<Rightarrow> Inl e
                            | Inr v \<Rightarrow> Inr (args[length args - 1 := v]))
                      else if last_mode = 2
                      then (case getitem (code m) (sint (relative_base m + last_arg)) of
                              Inl e \<Rightarrow> Inl e
                            | Inr v \<Rightarrow> Inr (args[length args - 1 := v]))
                      else Inr args))"

section \<open>The opcode functions\<close>

text \<open>
  An opcode function returns the number the dispatch loop adds to the pointer, with the
  state it leaves. When it raises, the result is the exception with the state at that
  moment: the object outlives the exception, and the caller can inspect it.
\<close>

type_synonym outcome = "(error \<times> machine) + (int \<times> machine)"

definition add :: "machine \<Rightarrow> nat list \<Rightarrow> outcome" where
  "add m modes =
     (case follow_pointers m modes 3 True of
        Inl e \<Rightarrow> Inl (e, m)
      | Inr args \<Rightarrow>
          (case args of
             [arg1, arg2, output_index] \<Rightarrow>
               (case setitem (code m) (sint output_index) (arg1 + arg2) of
                  Inl e \<Rightarrow> Inl (e, m)
                | Inr c \<Rightarrow> Inr (4, m\<lparr>code := c\<rparr>))
           | _ \<Rightarrow> Inl (ValueError_unpack, m)))"

definition multiply :: "machine \<Rightarrow> nat list \<Rightarrow> outcome" where
  "multiply m modes =
     (case follow_pointers m modes 3 True of
        Inl e \<Rightarrow> Inl (e, m)
      | Inr args \<Rightarrow>
          (case args of
             [arg1, arg2, output_index] \<Rightarrow>
               (case setitem (code m) (sint output_index) (arg1 * arg2) of
                  Inl e \<Rightarrow> Inl (e, m)
                | Inr c \<Rightarrow> Inr (4, m\<lparr>code := c\<rparr>))
           | _ \<Rightarrow> Inl (ValueError_unpack, m)))"

text \<open>
  \<open>self.code[arg1] = self.input.pop(0)\<close>: the right-hand side is evaluated first, so the
  value has left the queue when the store raises. The store checks the index, then
  converts the value to int64.
\<close>

definition store_input :: "64 word list \<Rightarrow> int \<Rightarrow> int option \<Rightarrow> error + 64 word list" where
  "store_input c i v =
     (case np_index (length c) i of
        Inl e \<Rightarrow> Inl e
      | Inr k \<Rightarrow>
          (case v of
             None \<Rightarrow> Inl TypeError_not_int
           | Some x \<Rightarrow> if in_int64 x then Inr (c[k := word_of_int x]) else Inl OverflowError_int64))"

definition input_op :: "machine \<Rightarrow> nat list \<Rightarrow> outcome" where
  "input_op m modes =
     (case follow_pointers m modes 1 True of
        Inl e \<Rightarrow> Inl (e, m)
      | Inr args \<Rightarrow>
          (let arg1 = args ! 0
           in case input m of
                [] \<Rightarrow> Inl (IndexError_pop_empty, m)
              | v # rest \<Rightarrow>
                  (case store_input (code m) (sint arg1) v of
                     Inl e \<Rightarrow> Inl (e, m\<lparr>input := rest\<rparr>)
                   | Inr c \<Rightarrow> Inr (2, m\<lparr>input := rest, code := c\<rparr>))))"

definition output_op :: "machine \<Rightarrow> nat list \<Rightarrow> outcome" where
  "output_op m modes =
     (case follow_pointers m modes 1 False of
        Inl e \<Rightarrow> Inl (e, m)
      | Inr args \<Rightarrow>
          (let arg1 = args ! 0;
               m1 = m\<lparr>output_log := output_log m @ [arg1]\<rparr>
           in Inr (2, if allow_pausing m1 then m1\<lparr>unpaused_flag := False\<rparr> else m1)))"

definition jump_if_true :: "machine \<Rightarrow> nat list \<Rightarrow> outcome" where
  "jump_if_true m modes =
     (case follow_pointers m modes 2 False of
        Inl e \<Rightarrow> Inl (e, m)
      | Inr args \<Rightarrow>
          (case args of
             [arg1, arg2] \<Rightarrow>
               (if arg1 \<noteq> 0 then Inr (0, m\<lparr>pointer := sint arg2\<rparr>) else Inr (3, m))
           | _ \<Rightarrow> Inl (ValueError_unpack, m)))"

definition jump_if_false :: "machine \<Rightarrow> nat list \<Rightarrow> outcome" where
  "jump_if_false m modes =
     (case follow_pointers m modes 2 False of
        Inl e \<Rightarrow> Inl (e, m)
      | Inr args \<Rightarrow>
          (case args of
             [arg1, arg2] \<Rightarrow>
               (if \<not> arg1 \<noteq> 0 then Inr (0, m\<lparr>pointer := sint arg2\<rparr>) else Inr (3, m))
           | _ \<Rightarrow> Inl (ValueError_unpack, m)))"

definition less_than :: "machine \<Rightarrow> nat list \<Rightarrow> outcome" where
  "less_than m modes =
     (case follow_pointers m modes 3 True of
        Inl e \<Rightarrow> Inl (e, m)
      | Inr args \<Rightarrow>
          (case args of
             [arg1, arg2, arg3] \<Rightarrow>
               (case setitem (code m) (sint arg3) (if sint arg1 < sint arg2 then 1 else 0) of
                  Inl e \<Rightarrow> Inl (e, m)
                | Inr c \<Rightarrow> Inr (4, m\<lparr>code := c\<rparr>))
           | _ \<Rightarrow> Inl (ValueError_unpack, m)))"

definition equals :: "machine \<Rightarrow> nat list \<Rightarrow> outcome" where
  "equals m modes =
     (case follow_pointers m modes 3 True of
        Inl e \<Rightarrow> Inl (e, m)
      | Inr args \<Rightarrow>
          (case args of
             [arg1, arg2, arg3] \<Rightarrow>
               (case setitem (code m) (sint arg3) (if arg1 = arg2 then 1 else 0) of
                  Inl e \<Rightarrow> Inl (e, m)
                | Inr c \<Rightarrow> Inr (4, m\<lparr>code := c\<rparr>))
           | _ \<Rightarrow> Inl (ValueError_unpack, m)))"

definition shift :: "machine \<Rightarrow> nat list \<Rightarrow> outcome" where
  "shift m modes =
     (case follow_pointers m modes 1 False of
        Inl e \<Rightarrow> Inl (e, m)
      | Inr args \<Rightarrow>
          (case args of
             [arg1] \<Rightarrow> Inr (2, m\<lparr>relative_base := relative_base m + arg1\<rparr>)
           | _ \<Rightarrow> Inl (ValueError_unpack, m)))"

definition halt :: "machine \<Rightarrow> nat list \<Rightarrow> outcome" where
  "halt m parameters = Inr (1, m\<lparr>continue_flag := False\<rparr>)"

section \<open>Dispatch\<close>

text \<open>\<open>self.opcode_dict\<close>: a key that is missing raises KeyError.\<close>

definition opcode_dict :: "int \<Rightarrow> (machine \<Rightarrow> nat list \<Rightarrow> outcome) option" where
  "opcode_dict =
     map_of [(1, add), (2, multiply), (3, input_op), (4, output_op), (5, jump_if_true),
             (6, jump_if_false), (7, less_than), (8, equals), (9, shift), (99, halt)]"

definition operate :: "machine \<Rightarrow> 64 word \<Rightarrow> outcome" where
  "operate m full_opcode =
     (case parse_full_opcode full_opcode of
        Inl e \<Rightarrow> Inl (e, m)
      | Inr (parameters, opcode) \<Rightarrow>
          (case opcode_dict opcode of
             None \<Rightarrow> Inl (KeyError, m)
           | Some opfunc \<Rightarrow> opfunc m parameters))"

text \<open>One iteration of the loop of \<open>run\<close>: fetch, \<open>operate\<close>, \<open>self.pointer += toadd\<close>.\<close>

definition step :: "machine \<Rightarrow> (error \<times> machine) + machine" where
  "step m =
     (case getitem (code m) (pointer m) of
        Inl e \<Rightarrow> Inl (e, m)
      | Inr full_opcode \<Rightarrow>
          (case operate m full_opcode of
             Inl em \<Rightarrow> Inl em
           | Inr (toadd, m') \<Rightarrow> Inr (m'\<lparr>pointer := pointer m' + toadd\<rparr>)))"

text \<open>
  The loop \<open>while self.continue_flag and self.unpaused_flag\<close>. A program may loop for
  ever: \<open>None\<close> is the run that never returns, \<open>Some (Inl _)\<close> the run that raises.
\<close>

partial_function (option) run_loop :: "machine \<Rightarrow> ((error \<times> machine) + machine) option" where
  "run_loop m =
     (if continue_flag m \<and> unpaused_flag m
      then (case step m of Inl em \<Rightarrow> Some (Inl em) | Inr m' \<Rightarrow> run_loop m')
      else Some (Inr m))"

declare run_loop.simps [code]

text \<open>
  The argument of \<open>run\<close> and \<open>resume\<close>: nothing (\<open>None\<close>, the default), one integer or
  a list of integers. \<open>input_value if isinstance(input_value, list) else [input_value]\<close>.
\<close>

datatype input_value = PyNone | PyInt int | PyList "int list"

fun input_list :: "input_value \<Rightarrow> int option list" where
  "input_list PyNone = [None]"
| "input_list (PyInt v) = [Some v]"
| "input_list (PyList vs) = map Some vs"

definition run :: "machine \<Rightarrow> input_value \<Rightarrow> ((error \<times> machine) + machine) option" where
  "run m iv = run_loop (m\<lparr>input := input_list iv\<rparr>)"

definition resume :: "machine \<Rightarrow> input_value \<Rightarrow> ((error \<times> machine) + machine) option" where
  "resume m iv = run (m\<lparr>unpaused_flag := True\<rparr>) iv"

section \<open>Vocabulary of the properties\<close>

text \<open>
  The mode of operand \<open>i\<close> (counted from 0) in the list of mode digits of an opcode cell,
  least significant digit first: a digit that is absent is mode 0.
\<close>

definition mode_of :: "nat list \<Rightarrow> nat \<Rightarrow> nat" where
  "mode_of modes i = (if i < length modes then modes ! i else 0)"

text \<open>
  What \<open>follow_pointers\<close> does with an operand that is read: mode 0 reads the cell at
  the operand, mode 2 the cell at \<open>relative_base + operand\<close>, and every other mode
  leaves the operand as it is.
\<close>

definition read_operand :: "machine \<Rightarrow> nat \<Rightarrow> 64 word \<Rightarrow> error + 64 word" where
  "read_operand m mode arg =
     (if mode = 0 then getitem (code m) (sint arg)
      else if mode = 2 then getitem (code m) (sint (relative_base m + arg))
      else Inr arg)"

text \<open>
  An instruction that leaves the pausing policy, the output log and \<open>unpaused_flag\<close>
  as they were.
\<close>

definition quiet :: "machine \<Rightarrow> machine \<Rightarrow> bool" where
  "quiet m m1 =
     (allow_pausing m1 = allow_pausing m \<and> output_log m1 = output_log m \<and>
      unpaused_flag m1 = unpaused_flag m)"

text \<open>
  \<open>steps k\<close> is \<open>k\<close> iterations of the dispatch loop, one after the other.
\<close>

fun steps :: "nat \<Rightarrow> machine \<Rightarrow> (error \<times> machine) + machine" where
  "steps 0 m = Inr m"
| "steps (Suc k) m = (case step m of Inl em \<Rightarrow> Inl em | Inr m1 \<Rightarrow> steps k m1)"

text \<open>
  The two ways a call that enters the loop can return under pause-on-output. A halting
  cycle executes some instructions, none of which changes the log, and ends Halted. An
  output cycle executes some instructions that leave the log as it was and reaches, still
  Running, an output instruction (a cell that decodes to opcode 4); it returns the state
  right after that instruction: the pointer behind it, the log extended by the resolved
  operand of that instruction and by nothing else, and \<open>unpaused_flag\<close> cleared.
\<close>

definition halting_cycle :: "machine \<Rightarrow> machine \<Rightarrow> bool" where
  "halting_cycle m m' =
     (\<exists>k. steps k m = Inr m' \<and> output_log m' = output_log m \<and> status_of m' = Halted)"

definition output_cycle :: "machine \<Rightarrow> machine \<Rightarrow> bool" where
  "output_cycle m m' =
     (\<exists>k m1 w modes args.
        steps k m = Inr m1 \<and> output_log m1 = output_log m \<and> status_of m1 = Running \<and>
        getitem (code m1) (pointer m1) = Inr w \<and> parse_full_opcode w = Inr (modes, 4) \<and>
        follow_pointers m1 modes 1 False = Inr args \<and>
        m' = m1\<lparr>pointer := pointer m1 + 2, output_log := output_log m @ [args ! 0],
                 unpaused_flag := False\<rparr>)"

text \<open>
  The addresses NumPy accepts for the memory array, read or written: \<open>[-n, n)\<close> for an
  array of \<open>n\<close> cells.
\<close>

definition addressable :: "machine \<Rightarrow> int \<Rightarrow> bool" where
  "addressable m a = (- int (length (code m)) \<le> a \<and> a < int (length (code m)))"

text \<open>
  The cell an accepted address designates: a negative address counts from the end.
\<close>

definition cell_of :: "machine \<Rightarrow> int \<Rightarrow> nat" where
  "cell_of m a = nat (if a < 0 then a + int (length (code m)) else a)"

text \<open>
  The mode digit \<open>follow_pointers\<close> applies to operand \<open>i\<close> of an instruction with
  \<open>n\<close> operands: the digit of that operand, and for the final operand the last digit
  of the padded list, \<open>modes[-1]\<close>.
\<close>

definition applied_mode :: "nat list \<Rightarrow> nat \<Rightarrow> nat \<Rightarrow> nat" where
  "applied_mode modes n i =
     (if i = n - 1 then last (check_modes_length modes n) else mode_of modes i)"

text \<open>
  An operand is read through memory when its mode is 0 or 2, unless it is the final
  operand of an instruction that writes. The address it designates is the operand, or
  \<open>relative_base + operand\<close> in mode 2, as an int64.
\<close>

definition dereferenced :: "nat \<Rightarrow> bool \<Rightarrow> nat \<Rightarrow> nat \<Rightarrow> bool" where
  "dereferenced n has_output i md = ((md = 0 \<or> md = 2) \<and> \<not> (has_output \<and> i = n - 1))"

definition operand_address :: "machine \<Rightarrow> nat \<Rightarrow> 64 word \<Rightarrow> int" where
  "operand_address m md lit = sint (if md = 2 then relative_base m + lit else lit)"

definition resolved_value :: "machine \<Rightarrow> nat \<Rightarrow> bool \<Rightarrow> nat \<Rightarrow> nat \<Rightarrow> 64 word \<Rightarrow> 64 word" where
  "resolved_value m n has_output i md lit =
     (if has_output \<and> i = n - 1 then (if md = 2 then lit + relative_base m else lit)
      else if md = 0 \<or> md = 2 then code m ! cell_of m (operand_address m md lit)
      else lit)"

text \<open>
  The number of operands of each opcode: the \<open>num_args\<close> its opcode function passes to
  \<open>follow_pointers\<close> (none for 99).
\<close>

definition num_operands :: "int \<Rightarrow> nat" where
  "num_operands opcode =
     (if opcode = 1 \<or> opcode = 2 \<or> opcode = 7 \<or> opcode = 8 then 3
      else if opcode = 5 \<or> opcode = 6 then 2
      else if opcode = 3 \<or> opcode = 4 \<or> opcode = 9 then 1
      else 0)"

section \<open>The dispatch loop\<close>

lemma run_loop_stopped:
  "\<not> (continue_flag m \<and> unpaused_flag m) \<Longrightarrow> run_loop m = Some (Inr m)"
  by (subst run_loop.simps) auto

lemma run_loop_running:
  "continue_flag m \<Longrightarrow> unpaused_flag m \<Longrightarrow>
   run_loop m = (case step m of Inl em \<Rightarrow> Some (Inl em) | Inr m' \<Rightarrow> run_loop m')"
  by (subst run_loop.simps) simp

text \<open>A run that returns has left the loop: the machine is paused or halted.\<close>

lemma run_loop_final:
  assumes "run_loop m = Some (Inr m')"
  shows "\<not> (continue_flag m' \<and> unpaused_flag m')"
proof -
  have "\<forall>m'. r = Inr m' \<longrightarrow> \<not> (continue_flag m' \<and> unpaused_flag m')"
    if "run_loop m = Some r" for r
    by (rule run_loop.raw_induct
          [where P = "\<lambda>m r. \<forall>m'. r = Inr m' \<longrightarrow> \<not> (continue_flag m' \<and> unpaused_flag m')",
           OF _ that])
       (auto split: if_splits sum.splits)
  with assms show ?thesis by blast
qed

section \<open>The halt opcode\<close>

lemma parse_99: "parse_full_opcode 99 = Inr ([], 99)"
  by code_simp

lemma opcode_dict_99: "opcode_dict 99 = Some halt"
  by (simp add: opcode_dict_def)

lemma init_99:
  "0 < cap \<Longrightarrow> init [99] ap cap =
     Inr \<lparr>code = 99 # replicate (cap - 1) 0, pointer = 0, relative_base = 0, input = [],
        output_log = [], allow_pausing = ap, unpaused_flag = True, continue_flag = True\<rparr>"
  by (cases cap) (simp_all add: init_def initialize_code_def in_int64_def Let_def)

lemma step_99:
  "step \<lparr>code = 99 # rest, pointer = 0, relative_base = rb, input = q,
        output_log = out, allow_pausing = ap, unpaused_flag = up, continue_flag = cf\<rparr> =
   Inr \<lparr>code = 99 # rest, pointer = 1, relative_base = rb, input = q,
        output_log = out, allow_pausing = ap, unpaused_flag = up, continue_flag = False\<rparr>"
  by (simp add: step_def getitem_def np_index_def operate_def parse_99 opcode_dict_99 halt_def)

text \<open>
  C9. The program that consists of the single cell 99, loaded into a memory that has an
  address 0 (\<open>code_size\<close> at least 1): whatever the pausing policy and whatever input
  \<open>run\<close> is given, \<open>run\<close> returns, the machine is Halted and the output log is empty.
\<close>

theorem halt_only_program:
  assumes "0 < code_size"
  shows "\<exists>m m'. init [99] ap code_size = Inr m \<and> run m iv = Some (Inr m') \<and>
           status_of m' = Halted \<and> output_log m' = []"
  using assms
  by (simp add: init_99 run_def run_loop_running step_99 run_loop_stopped status_of_def)

theorem halt_only_program_witness:
  "(0::nat) < 4 \<and>
   (\<exists>m m'. init [99] True 4 = Inr m \<and> run m (PyList [7, 8]) = Some (Inr m') \<and>
      status_of m' = Halted \<and> output_log m' = [])"
  using halt_only_program [of 4 True "PyList [7, 8]"] by simp

text \<open>
  C10. On a Halted machine \<open>run\<close> and \<open>resume\<close> return at once, without executing an
  instruction: \<open>run\<close> changes the input queue only; \<open>resume\<close> also writes
  \<open>unpaused_flag = True\<close>, which is the value the flag has on every machine that halted
  by executing opcode 99, so that there \<open>resume\<close> and \<open>run\<close> agree. Memory, pointer,
  relative base, output log and status are the same before and after.
\<close>

theorem halted_run_resume_frame:
  assumes "status_of m = Halted"
  shows "run m iv = Some (Inr (m\<lparr>input := input_list iv\<rparr>)) \<and>
         resume m iv = Some (Inr (m\<lparr>unpaused_flag := True, input := input_list iv\<rparr>)) \<and>
         status_of (m\<lparr>unpaused_flag := True, input := input_list iv\<rparr>) = Halted \<and>
         (unpaused_flag m \<longrightarrow> resume m iv = run m iv)"
proof -
  from assms have h: "\<not> continue_flag m"
    by (auto simp: status_of_def split: if_splits)
  have r: "run m iv = Some (Inr (m\<lparr>input := input_list iv\<rparr>))"
    unfolding run_def using h by (simp add: run_loop_stopped)
  have s: "resume m iv = Some (Inr (m\<lparr>unpaused_flag := True, input := input_list iv\<rparr>))"
    unfolding resume_def run_def using h by (simp add: run_loop_stopped)
  have t: "status_of (m\<lparr>unpaused_flag := True, input := input_list iv\<rparr>) = Halted"
    using h by (simp add: status_of_def)
  have u: "unpaused_flag m \<longrightarrow> resume m iv = run m iv"
    unfolding resume_def by (cases m) auto
  from r s t u show ?thesis by blast
qed

theorem halted_run_resume_frame_witness:
  "status_of \<lparr>code = [99, 0], pointer = 1, relative_base = 0, input = [None],
        output_log = [], allow_pausing = False, unpaused_flag = True,
        continue_flag = False\<rparr> = Halted \<and>
   run \<lparr>code = [99, 0], pointer = 1, relative_base = 0, input = [None],
        output_log = [], allow_pausing = False, unpaused_flag = True,
        continue_flag = False\<rparr> (PyInt 5) =
     Some (Inr \<lparr>code = [99, 0], pointer = 1, relative_base = 0, input = [Some 5],
        output_log = [], allow_pausing = False, unpaused_flag = True,
        continue_flag = False\<rparr>) \<and>
   resume \<lparr>code = [99, 0], pointer = 1, relative_base = 0, input = [None],
        output_log = [], allow_pausing = False, unpaused_flag = True,
        continue_flag = False\<rparr> (PyInt 5) =
     Some (Inr \<lparr>code = [99, 0], pointer = 1, relative_base = 0, input = [Some 5],
        output_log = [], allow_pausing = False, unpaused_flag = True,
        continue_flag = False\<rparr>)"
  using halted_run_resume_frame
    [of "\<lparr>code = [99, 0], pointer = 1, relative_base = 0, input = [None],
        output_log = [], allow_pausing = False, unpaused_flag = True,
        continue_flag = False\<rparr>" "PyInt 5"]
  by (simp add: status_of_def)

section \<open>Jumps\<close>

lemma opcode_dict_5: "opcode_dict 5 = Some jump_if_true"
  by (simp add: opcode_dict_def)

lemma opcode_dict_6: "opcode_dict 6 = Some jump_if_false"
  by (simp add: opcode_dict_def)

text \<open>
  C6. An instruction cell that decodes to opcode 5 and whose two operands resolve to
  \<open>arg1\<close> and \<open>arg2\<close>: one iteration of the dispatch loop leaves the pointer exactly
  at \<open>arg2\<close> when \<open>arg1\<close> is not 0 (the opcode function returns 0, which the loop adds),
  and at the old pointer plus 3 otherwise; nothing else changes. Opcode 6 does the same with
  the test reversed.
\<close>

theorem jump_sets_pointer:
  assumes "getitem (code m) (pointer m) = Inr full_opcode"
    and "follow_pointers m modes 2 False = Inr [arg1, arg2]"
  shows "(parse_full_opcode full_opcode = Inr (modes, 5) \<longrightarrow>
            step m = Inr (if arg1 \<noteq> 0 then m\<lparr>pointer := sint arg2\<rparr>
                          else m\<lparr>pointer := pointer m + 3\<rparr>)) \<and>
         (parse_full_opcode full_opcode = Inr (modes, 6) \<longrightarrow>
            step m = Inr (if arg1 = 0 then m\<lparr>pointer := sint arg2\<rparr>
                          else m\<lparr>pointer := pointer m + 3\<rparr>))"
  using assms
  by (simp add: step_def operate_def opcode_dict_5 opcode_dict_6 jump_if_true_def
      jump_if_false_def)

theorem jump_sets_pointer_witness:
  "step \<lparr>code = [1105, 1, 4, 99, 1, 0], pointer = 0, relative_base = 0, input = [],
        output_log = [], allow_pausing = False, unpaused_flag = True,
        continue_flag = True\<rparr> =
   Inr \<lparr>code = [1105, 1, 4, 99, 1, 0], pointer = 4, relative_base = 0, input = [],
        output_log = [], allow_pausing = False, unpaused_flag = True,
        continue_flag = True\<rparr>"
proof -
  let ?m = "\<lparr>code = [1105, 1, 4, 99, 1, 0], pointer = 0, relative_base = 0, input = [],
        output_log = [], allow_pausing = False, unpaused_flag = True,
        continue_flag = True\<rparr>"
  have f: "getitem (code ?m) (pointer ?m) = Inr 1105" by code_simp
  have p: "parse_full_opcode 1105 = Inr ([1, 1], 5)" by code_simp
  have a: "follow_pointers ?m [1, 1] 2 False = Inr [1, 4]" by code_simp
  from jump_sets_pointer [OF f a] p show ?thesis by simp
qed

section \<open>Input\<close>

lemma opcode_dict_3: "opcode_dict 3 = Some input_op"
  by (simp add: opcode_dict_def)

lemma follow_pointers_input:
  "follow_pointers m modes 1 True =
     (if operand_cells m 1 = [] then Inl IndexError_out_of_bounds
      else Inr (if last (check_modes_length modes 1) = 2
                then (operand_cells m 1)[length (operand_cells m 1) - 1 :=
                       last (operand_cells m 1) + relative_base m]
                else operand_cells m 1))"
proof -
  have "length (operand_cells m 1) \<le> 1"
    by (auto simp: operand_cells_def py_slice_def slice_bound_def Let_def)
  then have "[0..<length (operand_cells m 1) - 1] = []" by simp
  then show ?thesis
    by (simp add: follow_pointers_def Let_def)
qed

lemma input_op_empty_queue:
  "input m = [] \<Longrightarrow>
   input_op m modes = Inl (if operand_cells m 1 = [] then IndexError_out_of_bounds
                           else IndexError_pop_empty, m)"
  unfolding input_op_def follow_pointers_input by (simp add: Let_def)

text \<open>
  C4. An instruction cell that decodes to opcode 3, executed with an empty input queue:
  the iteration raises IndexError and the machine is as it was before, so no cell is
  written and nothing stands in for the missing value. The IndexError is the one of
  \<open>self.input.pop(0)\<close> whenever the operand cell of the instruction exists; it is the one
  of \<open>args[-1]\<close> when the opcode sits in the last cell of the array, where the operand
  slice is empty. The interpreter has no pausing for input: \<open>allow_pausing\<close> plays no part.
\<close>

theorem input_exhausted_fails:
  assumes "getitem (code m) (pointer m) = Inr full_opcode"
    and "parse_full_opcode full_opcode = Inr (modes, 3)"
    and "input m = []"
  shows "step m = Inl (if operand_cells m 1 = [] then IndexError_out_of_bounds
                       else IndexError_pop_empty, m)"
  using assms
  by (simp add: step_def operate_def opcode_dict_3 input_op_empty_queue)

theorem input_exhausted_fails_witness:
  "step \<lparr>code = [7, 0, 3, 1, 99, 0, 0, 0], pointer = 2, relative_base = 0, input = [],
        output_log = [], allow_pausing = False, unpaused_flag = True,
        continue_flag = True\<rparr> =
     Inl (IndexError_pop_empty,
        \<lparr>code = [7, 0, 3, 1, 99, 0, 0, 0], pointer = 2, relative_base = 0, input = [],
        output_log = [], allow_pausing = False, unpaused_flag = True,
        continue_flag = True\<rparr>) \<and>
   run \<lparr>code = [3, 0, 3, 1, 99, 0, 0, 0], pointer = 0, relative_base = 0, input = [],
        output_log = [], allow_pausing = False, unpaused_flag = True,
        continue_flag = True\<rparr> (PyInt 7) =
     Some (Inl (IndexError_pop_empty,
        \<lparr>code = [7, 0, 3, 1, 99, 0, 0, 0], pointer = 2, relative_base = 0, input = [],
        output_log = [], allow_pausing = False, unpaused_flag = True,
        continue_flag = True\<rparr>))"
proof -
  let ?m = "\<lparr>code = [7, 0, 3, 1, 99, 0, 0, 0], pointer = 2, relative_base = 0, input = [],
        output_log = [], allow_pausing = False, unpaused_flag = True,
        continue_flag = True\<rparr>"
  have f: "getitem (code ?m) (pointer ?m) = Inr 3" by code_simp
  have p: "parse_full_opcode 3 = Inr ([], 3)" by code_simp
  have i: "input ?m = []" by simp
  have c: "operand_cells ?m 1 = [1]" by code_simp
  have r: "run \<lparr>code = [3, 0, 3, 1, 99, 0, 0, 0], pointer = 0, relative_base = 0, input = [],
        output_log = [], allow_pausing = False, unpaused_flag = True,
        continue_flag = True\<rparr> (PyInt 7) = Some (Inl (IndexError_pop_empty, ?m))"
    by code_simp
  from input_exhausted_fails [OF f p i] c r show ?thesis by simp
qed

section \<open>Run and resume\<close>

text \<open>
  C2, as the code has it. On a Paused machine \<open>resume\<close> replaces the input queue, makes
  the machine Running and executes the dispatch loop, and when it returns the machine is
  Paused or Halted. \<open>run\<close> never writes \<open>unpaused_flag\<close>: on a Paused machine it
  replaces the input queue and returns at once, the machine still Paused.
\<close>

theorem paused_run_resume:
  assumes "status_of m = Paused"
  shows "run m iv = Some (Inr (m\<lparr>input := input_list iv\<rparr>)) \<and>
         status_of (m\<lparr>input := input_list iv\<rparr>) = Paused \<and>
         resume m iv = run_loop (m\<lparr>unpaused_flag := True, input := input_list iv\<rparr>) \<and>
         status_of (m\<lparr>unpaused_flag := True, input := input_list iv\<rparr>) = Running \<and>
         (\<forall>m'. resume m iv = Some (Inr m') \<longrightarrow> status_of m' \<noteq> Running)"
proof -
  from assms have c: "continue_flag m" and u: "\<not> unpaused_flag m"
    by (auto simp: status_of_def split: if_splits)
  have r: "run m iv = Some (Inr (m\<lparr>input := input_list iv\<rparr>))"
    unfolding run_def using u by (simp add: run_loop_stopped)
  have s: "status_of (m\<lparr>input := input_list iv\<rparr>) = Paused"
    using c u by (simp add: status_of_def)
  have t: "resume m iv = run_loop (m\<lparr>unpaused_flag := True, input := input_list iv\<rparr>)"
    by (simp add: resume_def run_def)
  have v: "status_of (m\<lparr>unpaused_flag := True, input := input_list iv\<rparr>) = Running"
    using c by (simp add: status_of_def)
  have w: "status_of m' \<noteq> Running" if "resume m iv = Some (Inr m')" for m'
    using run_loop_final [of _ m'] that unfolding t
    by (auto simp: status_of_def)
  from r s t v w show ?thesis by blast
qed

theorem paused_run_resume_witness:
  "status_of \<lparr>code = [104, 1, 104, 2, 99, 0, 0, 0], pointer = 2, relative_base = 0,
        input = [Some 0], output_log = [1], allow_pausing = True, unpaused_flag = False,
        continue_flag = True\<rparr> = Paused \<and>
   run \<lparr>code = [104, 1, 104, 2, 99, 0, 0, 0], pointer = 2, relative_base = 0,
        input = [Some 0], output_log = [1], allow_pausing = True, unpaused_flag = False,
        continue_flag = True\<rparr> (PyInt 5) =
     Some (Inr \<lparr>code = [104, 1, 104, 2, 99, 0, 0, 0], pointer = 2, relative_base = 0,
        input = [Some 5], output_log = [1], allow_pausing = True, unpaused_flag = False,
        continue_flag = True\<rparr>)"
  using paused_run_resume
    [of "\<lparr>code = [104, 1, 104, 2, 99, 0, 0, 0], pointer = 2, relative_base = 0,
        input = [Some 0], output_log = [1], allow_pausing = True, unpaused_flag = False,
        continue_flag = True\<rparr>" "PyInt 5"]
  by (simp add: status_of_def)

text \<open>
  The claim as stated fails on the program 104,1,104,2,99 with pause-on-output: the first
  \<open>run\<close> pauses after the output of 1; a second \<open>run\<close> returns the same paused machine
  with the log still 1, where \<open>resume\<close> executes the next instruction and the log is 1, 2.
\<close>

theorem run_is_not_resume_counterexample:
  "init [104, 1, 104, 2, 99] True 8 =
     Inr \<lparr>code = [104, 1, 104, 2, 99, 0, 0, 0], pointer = 0, relative_base = 0, input = [],
        output_log = [], allow_pausing = True, unpaused_flag = True, continue_flag = True\<rparr> \<and>
   run \<lparr>code = [104, 1, 104, 2, 99, 0, 0, 0], pointer = 0, relative_base = 0, input = [],
        output_log = [], allow_pausing = True, unpaused_flag = True, continue_flag = True\<rparr>
       (PyInt 0) =
     Some (Inr \<lparr>code = [104, 1, 104, 2, 99, 0, 0, 0], pointer = 2, relative_base = 0,
        input = [Some 0], output_log = [1], allow_pausing = True, unpaused_flag = False,
        continue_flag = True\<rparr>) \<and>
   status_of \<lparr>code = [104, 1, 104, 2, 99, 0, 0, 0], pointer = 2, relative_base = 0,
        input = [Some 0], output_log = [1], allow_pausing = True, unpaused_flag = False,
        continue_flag = True\<rparr> = Paused \<and>
   run \<lparr>code = [104, 1, 104, 2, 99, 0, 0, 0], pointer = 2, relative_base = 0,
        input = [Some 0], output_log = [1], allow_pausing = True, unpaused_flag = False,
        continue_flag = True\<rparr> (PyInt 0) =
     Some (Inr \<lparr>code = [104, 1, 104, 2, 99, 0, 0, 0], pointer = 2, relative_base = 0,
        input = [Some 0], output_log = [1], allow_pausing = True, unpaused_flag = False,
        continue_flag = True\<rparr>) \<and>
   resume \<lparr>code = [104, 1, 104, 2, 99, 0, 0, 0], pointer = 2, relative_base = 0,
        input = [Some 0], output_log = [1], allow_pausing = True, unpaused_flag = False,
        continue_flag = True\<rparr> (PyInt 0) =
     Some (Inr \<lparr>code = [104, 1, 104, 2, 99, 0, 0, 0], pointer = 4, relative_base = 0,
        input = [Some 0], output_log = [1, 2], allow_pausing = True, unpaused_flag = False,
        continue_flag = True\<rparr>)"
  by code_simp

section \<open>Loading\<close>

text \<open>
  C8, as the code has it. A program longer than the memory makes the construction raise
  (ValueError of the slice assignment, or OverflowError before it when a value is not an
  int64), except a program of one value with a memory of no cell, which NumPy broadcasts
  into the empty slice. A program of int64 values that fits is copied from address 0 and
  the rest is zero; the pointer and the relative base are 0, the machine is Running and
  the output log is empty.
\<close>

theorem load_characterised:
  "(length prog > code_size \<and> \<not> (length prog = 1 \<and> code_size = 0) \<longrightarrow>
      init prog ap code_size =
        Inl (if list_all in_int64 prog then ValueError_broadcast else OverflowError_int64)) \<and>
   (length prog \<le> code_size \<and> list_all in_int64 prog \<longrightarrow>
      (\<exists>m. init prog ap code_size = Inr m \<and>
         code m = map word_of_int prog @ replicate (code_size - length prog) 0 \<and>
         pointer m = 0 \<and> relative_base m = 0 \<and> status_of m = Running \<and>
         output_log m = [] \<and> allow_pausing m = ap))"
  by (auto simp: init_def initialize_code_def Let_def status_of_def min_def)

theorem load_characterised_witness:
  "init [1, 2, 3] False 2 = Inl ValueError_broadcast \<and>
   (\<exists>m. init [1, 0, 0, 0, 99] False 8 = Inr m \<and>
      code m = [1, 0, 0, 0, 99, 0, 0, 0] \<and> pointer m = 0 \<and> relative_base m = 0 \<and>
      status_of m = Running \<and> output_log m = [])"
  using load_characterised [where prog = "[1, 2, 3]" and code_size = 2 and ap = False]
    load_characterised [where prog = "[1, 0, 0, 0, 99]" and code_size = 8 and ap = False]
  by (auto simp add: in_int64_def numeral_eq_Suc)

text \<open>The program 99 with a memory of capacity 0 is longer than the memory, and loads.\<close>

theorem load_capacity_counterexample:
  "length [99 :: int] > 0 \<and>
   init [99] False 0 =
     Inr \<lparr>code = [], pointer = 0, relative_base = 0, input = [], output_log = [],
        allow_pausing = False, unpaused_flag = True, continue_flag = True\<rparr>"
  by code_simp

text \<open>
  The same holds for every program of one int64 value: with a memory of no cell the value
  is broadcast into the empty slice and the construction succeeds with an empty memory.
\<close>

lemma load_one_value_without_memory:
  "in_int64 v \<Longrightarrow>
   init [v] ap 0 =
     Inr \<lparr>code = [], pointer = 0, relative_base = 0, input = [], output_log = [],
        allow_pausing = ap, unpaused_flag = True, continue_flag = True\<rparr>"
  by (simp add: init_def initialize_code_def Let_def)

section \<open>Pause on output\<close>

lemma opcode_dict_cases:
  "opcode_dict opc = Some f \<Longrightarrow>
     f = add \<or> f = multiply \<or> f = input_op \<or> f = output_op \<or> f = jump_if_true \<or>
     f = jump_if_false \<or> f = less_than \<or> f = equals \<or> f = shift \<or> f = halt"
  by (auto simp: opcode_dict_def split: if_splits)

lemma add_quiet: "add m modes = Inr (k, m1) \<Longrightarrow> quiet m m1"
  by (auto simp: add_def quiet_def split: sum.splits list.splits)

lemma multiply_quiet: "multiply m modes = Inr (k, m1) \<Longrightarrow> quiet m m1"
  by (auto simp: multiply_def quiet_def split: sum.splits list.splits)

lemma less_than_quiet: "less_than m modes = Inr (k, m1) \<Longrightarrow> quiet m m1"
  by (auto simp: less_than_def quiet_def split: sum.splits list.splits)

lemma equals_quiet: "equals m modes = Inr (k, m1) \<Longrightarrow> quiet m m1"
  by (auto simp: equals_def quiet_def split: sum.splits list.splits)

lemma input_op_quiet: "input_op m modes = Inr (k, m1) \<Longrightarrow> quiet m m1"
  by (auto simp: input_op_def quiet_def Let_def split: sum.splits list.splits)

lemma jump_if_true_quiet: "jump_if_true m modes = Inr (k, m1) \<Longrightarrow> quiet m m1"
  by (auto simp: jump_if_true_def quiet_def split: sum.splits list.splits if_splits)

lemma jump_if_false_quiet: "jump_if_false m modes = Inr (k, m1) \<Longrightarrow> quiet m m1"
  by (auto simp: jump_if_false_def quiet_def split: sum.splits list.splits if_splits)

lemma shift_quiet: "shift m modes = Inr (k, m1) \<Longrightarrow> quiet m m1"
  by (auto simp: shift_def quiet_def split: sum.splits list.splits)

lemma halt_quiet: "halt m modes = Inr (k, m1) \<Longrightarrow> quiet m m1"
  by (auto simp: halt_def quiet_def)

lemma output_op_effect:
  "output_op m modes = Inr (k, m1) \<Longrightarrow>
     allow_pausing m1 = allow_pausing m \<and> continue_flag m1 = continue_flag m \<and>
     (\<exists>v. output_log m1 = output_log m @ [v]) \<and>
     unpaused_flag m1 = (if allow_pausing m then False else unpaused_flag m)"
  by (auto simp: output_op_def Let_def split: sum.splits)

lemma operate_effect:
  assumes "operate m w = Inr (k, m1)"
  shows "quiet m m1 \<or>
     (allow_pausing m1 = allow_pausing m \<and> continue_flag m1 = continue_flag m \<and>
      (\<exists>v. output_log m1 = output_log m @ [v]) \<and>
      unpaused_flag m1 = (if allow_pausing m then False else unpaused_flag m))"
proof -
  from assms obtain modes opc f where f: "opcode_dict opc = Some f" and r: "f m modes = Inr (k, m1)"
    by (auto simp: operate_def split: sum.splits option.splits prod.splits)
  from opcode_dict_cases [OF f] r show ?thesis
    by (auto dest: add_quiet multiply_quiet less_than_quiet equals_quiet input_op_quiet
        jump_if_true_quiet jump_if_false_quiet shift_quiet halt_quiet output_op_effect)
qed

lemma step_effect:
  assumes "step m = Inr m1"
  shows "quiet m m1 \<or>
     (allow_pausing m1 = allow_pausing m \<and> continue_flag m1 = continue_flag m \<and>
      (\<exists>v. output_log m1 = output_log m @ [v]) \<and>
      unpaused_flag m1 = (if allow_pausing m then False else unpaused_flag m))"
proof -
  from assms obtain w k m0 where o: "operate m w = Inr (k, m0)"
    and m1: "m1 = m0\<lparr>pointer := pointer m0 + k\<rparr>"
    by (auto simp: step_def split: sum.splits prod.splits)
  from operate_effect [OF o] show ?thesis
    unfolding m1 by (auto simp: quiet_def)
qed

text \<open>
  A machine that is Halted after a run has \<open>unpaused_flag\<close> set, provided it had before
  the run: the halt opcode only executes inside the loop, and the output opcode, which
  clears the flag, does not halt.
\<close>

lemma halted_by_execution_is_unpaused:
  assumes "run_loop m = Some (Inr m')"
    and "\<not> continue_flag m \<longrightarrow> unpaused_flag m"
  shows "\<not> continue_flag m' \<longrightarrow> unpaused_flag m'"
proof -
  let ?I = "\<lambda>m. \<not> continue_flag m \<longrightarrow> unpaused_flag m"
  let ?P = "\<lambda>m r. \<forall>m'. r = Inr m' \<longrightarrow> ?I m \<longrightarrow> ?I m'"
  have "?P m r" if "run_loop m = Some r" for r
  proof (rule run_loop.raw_induct [where P = ?P, OF _ that])
    fix rl :: "machine \<Rightarrow> ((error \<times> machine) + machine) option" and m r
    assume IH: "\<And>x y. rl x = Some y \<Longrightarrow> ?P x y"
      and body: "(if continue_flag m \<and> unpaused_flag m
         then case step m of Inl em \<Rightarrow> Some (Inl em) | Inr m' \<Rightarrow> rl m'
         else Some (Inr m)) = Some r"
    show "?P m r"
    proof (intro allI impI)
      fix m' assume r: "r = Inr m'" and inv: "?I m" and h: "\<not> continue_flag m'"
      show "unpaused_flag m'"
      proof (cases "continue_flag m \<and> unpaused_flag m")
        case False
        with body r have "m' = m" by simp
        with inv h show ?thesis by simp
      next
        case True
        with body r obtain m1 where s: "step m = Inr m1" and rl: "rl m1 = Some (Inr m')"
          by (auto split: sum.splits)
        from step_effect [OF s] True have "?I m1"
          by (auto simp: quiet_def)
        with IH [OF rl] h show ?thesis by simp
      qed
    qed
  qed
  with assms show ?thesis by blast
qed

lemma opcode_dict_Some:
  "opcode_dict opc = Some f \<Longrightarrow>
     opc = 1 \<and> f = add \<or> opc = 2 \<and> f = multiply \<or> opc = 3 \<and> f = input_op \<or>
     opc = 4 \<and> f = output_op \<or> opc = 5 \<and> f = jump_if_true \<or>
     opc = 6 \<and> f = jump_if_false \<or> opc = 7 \<and> f = less_than \<or> opc = 8 \<and> f = equals \<or>
     opc = 9 \<and> f = shift \<or> opc = 99 \<and> f = halt"
  by (auto simp: opcode_dict_def split: if_splits)

lemma output_op_exact:
  "output_op m modes = Inr (k, m1) \<Longrightarrow>
     \<exists>args. follow_pointers m modes 1 False = Inr args \<and> k = 2 \<and>
       m1 = (if allow_pausing m
             then m\<lparr>output_log := output_log m @ [args ! 0], unpaused_flag := False\<rparr>
             else m\<lparr>output_log := output_log m @ [args ! 0]\<rparr>)"
  by (auto simp: output_op_def Let_def split: sum.splits)

lemma step_output_or_quiet:
  assumes "step m = Inr m2"
  shows "(\<exists>w modes args. getitem (code m) (pointer m) = Inr w \<and>
            parse_full_opcode w = Inr (modes, 4) \<and>
            follow_pointers m modes 1 False = Inr args \<and>
            m2 = (if allow_pausing m
                  then m\<lparr>pointer := pointer m + 2, output_log := output_log m @ [args ! 0],
                         unpaused_flag := False\<rparr>
                  else m\<lparr>pointer := pointer m + 2, output_log := output_log m @ [args ! 0]\<rparr>)) \<or>
         quiet m m2"
proof -
  from assms obtain w k m0 where g: "getitem (code m) (pointer m) = Inr w"
    and o: "operate m w = Inr (k, m0)" and m2: "m2 = m0\<lparr>pointer := pointer m0 + k\<rparr>"
    by (auto simp: step_def split: sum.splits prod.splits)
  from o obtain modes opc f where p: "parse_full_opcode w = Inr (modes, opc)"
    and d: "opcode_dict opc = Some f" and r: "f m modes = Inr (k, m0)"
    by (auto simp: operate_def split: sum.splits option.splits prod.splits)
  show ?thesis
  proof (cases "opc = 4")
    case True
    with d have "f = output_op" by (simp add: opcode_dict_def)
    with r have "output_op m modes = Inr (k, m0)" by simp
    from output_op_exact [OF this] obtain args where
      a: "follow_pointers m modes 1 False = Inr args" and k: "k = 2"
      and m0: "m0 = (if allow_pausing m
             then m\<lparr>output_log := output_log m @ [args ! 0], unpaused_flag := False\<rparr>
             else m\<lparr>output_log := output_log m @ [args ! 0]\<rparr>)"
      by blast
    have "m2 = (if allow_pausing m
                  then m\<lparr>pointer := pointer m + 2, output_log := output_log m @ [args ! 0],
                         unpaused_flag := False\<rparr>
                  else m\<lparr>pointer := pointer m + 2, output_log := output_log m @ [args ! 0]\<rparr>)"
      unfolding m2 m0 k by simp
    with g p a True show ?thesis by blast
  next
    case False
    with opcode_dict_Some [OF d] r have "quiet m m0"
      by (auto dest: add_quiet multiply_quiet less_than_quiet equals_quiet input_op_quiet
          jump_if_true_quiet jump_if_false_quiet shift_quiet halt_quiet)
    then have "quiet m m2" unfolding m2 by (simp add: quiet_def)
    then show ?thesis by blast
  qed
qed

lemma run_loop_cycle:
  assumes "run_loop m = Some (Inr m')" and "allow_pausing m" and "unpaused_flag m"
  shows "halting_cycle m m' \<or> output_cycle m m'"
proof -
  let ?P = "\<lambda>m r. \<forall>m'. r = Inr m' \<longrightarrow>
      (\<not> (continue_flag m \<and> unpaused_flag m) \<longrightarrow> m' = m) \<and>
      (allow_pausing m \<longrightarrow> unpaused_flag m \<longrightarrow> halting_cycle m m' \<or> output_cycle m m')"
  have "?P m r" if "run_loop m = Some r" for r
  proof (rule run_loop.raw_induct [where P = ?P, OF _ that])
    fix rl :: "machine \<Rightarrow> ((error \<times> machine) + machine) option" and m r
    assume IH: "\<And>x y. rl x = Some y \<Longrightarrow> ?P x y"
      and body: "(if continue_flag m \<and> unpaused_flag m
         then case step m of Inl em \<Rightarrow> Some (Inl em) | Inr m' \<Rightarrow> rl m'
         else Some (Inr m)) = Some r"
    show "?P m r"
    proof (intro allI impI conjI)
      fix m' assume "r = Inr m'" and "\<not> (continue_flag m \<and> unpaused_flag m)"
      with body show "m' = m" by (simp split: if_splits)
    next
      fix m' assume r: "r = Inr m'" and ap: "allow_pausing m" and up: "unpaused_flag m"
      show "halting_cycle m m' \<or> output_cycle m m'"
      proof (cases "continue_flag m")
        case False
        with body r have "m' = m" by simp
        with False have "steps 0 m = Inr m' \<and> output_log m' = output_log m \<and>
            status_of m' = Halted"
          by (simp add: status_of_def)
        then have "halting_cycle m m'"
          unfolding halting_cycle_def by blast
        then show ?thesis ..
      next
        case True
        with body up r obtain m2 where s: "step m = Inr m2" and rl: "rl m2 = Some (Inr m')"
          by (auto split: sum.splits)
        have s1: "steps (Suc k) m = steps k m2" for k using s by simp
        from step_output_or_quiet [OF s] show ?thesis
        proof
          assume "\<exists>w modes args. getitem (code m) (pointer m) = Inr w \<and>
            parse_full_opcode w = Inr (modes, 4) \<and>
            follow_pointers m modes 1 False = Inr args \<and>
            m2 = (if allow_pausing m
                  then m\<lparr>pointer := pointer m + 2, output_log := output_log m @ [args ! 0],
                         unpaused_flag := False\<rparr>
                  else m\<lparr>pointer := pointer m + 2, output_log := output_log m @ [args ! 0]\<rparr>)"
          with ap obtain w modes args where g: "getitem (code m) (pointer m) = Inr w"
            and p: "parse_full_opcode w = Inr (modes, 4)"
            and a: "follow_pointers m modes 1 False = Inr args"
            and m2: "m2 = m\<lparr>pointer := pointer m + 2, output_log := output_log m @ [args ! 0],
                         unpaused_flag := False\<rparr>"
            by auto
          from m2 have "\<not> unpaused_flag m2" by simp
          with IH [OF rl] have "m' = m2" by simp
          moreover have "steps 0 m = Inr m" by simp
          moreover have "status_of m = Running" using True up by (simp add: status_of_def)
          ultimately have "output_cycle m m'"
            unfolding output_cycle_def using g p a m2 by blast
          then show ?thesis ..
        next
          assume q: "quiet m m2"
          then have ap2: "allow_pausing m2" and up2: "unpaused_flag m2"
            and l2: "output_log m2 = output_log m"
            using ap up by (simp_all add: quiet_def)
          from IH [OF rl] ap2 up2 have "halting_cycle m2 m' \<or> output_cycle m2 m'" by simp
          then show ?thesis
          proof
            assume "halting_cycle m2 m'"
            then obtain k where "steps k m2 = Inr m'" "output_log m' = output_log m2"
              "status_of m' = Halted"
              unfolding halting_cycle_def by blast
            with s1 [of k] l2 have "steps (Suc k) m = Inr m' \<and> output_log m' = output_log m \<and>
              status_of m' = Halted" by simp
            then have "halting_cycle m m'" unfolding halting_cycle_def by blast
            then show ?thesis ..
          next
            assume "output_cycle m2 m'"
            then obtain k m1 w modes args where
              "steps k m2 = Inr m1" "output_log m1 = output_log m2" "status_of m1 = Running"
              "getitem (code m1) (pointer m1) = Inr w" "parse_full_opcode w = Inr (modes, 4)"
              "follow_pointers m1 modes 1 False = Inr args"
              "m' = m1\<lparr>pointer := pointer m1 + 2, output_log := output_log m2 @ [args ! 0],
                 unpaused_flag := False\<rparr>"
              unfolding output_cycle_def by blast
            with s1 [of k] l2 have "steps (Suc k) m = Inr m1 \<and> output_log m1 = output_log m \<and>
              status_of m1 = Running \<and>
              getitem (code m1) (pointer m1) = Inr w \<and> parse_full_opcode w = Inr (modes, 4) \<and>
              follow_pointers m1 modes 1 False = Inr args \<and>
              m' = m1\<lparr>pointer := pointer m1 + 2, output_log := output_log m @ [args ! 0],
                 unpaused_flag := False\<rparr>" by simp
            then have "output_cycle m m'" unfolding output_cycle_def by blast
            then show ?thesis ..
          qed
        qed
      qed
    qed
  qed
  with assms show ?thesis by blast
qed

text \<open>
  C5, as the code has it. With pause-on-output enabled, the output opcode appends exactly
  one value, its resolved operand, and clears \<open>unpaused_flag\<close>, so the loop stops right
  after it. Every \<open>resume\<close>, and every \<open>run\<close> of a machine that is not paused, that
  returns is a halting cycle or an output cycle: it appended nothing and the machine is
  Halted, or it executed the instructions up to the first output instruction, appended
  exactly the operand of that instruction and returned the state right behind it, from
  which the next \<open>resume\<close> continues, so that no value is appended twice and none is
  skipped. A \<open>run\<close> of a paused machine executes nothing and appends nothing: three outputs
  take one \<open>run\<close> and two \<open>resume\<close>, not three calls of \<open>run\<close>.
\<close>

theorem one_output_per_cycle:
  assumes "allow_pausing m"
  shows "(\<forall>modes k m1. output_op m modes = Inr (k, m1) \<longrightarrow>
            (\<exists>args. follow_pointers m modes 1 False = Inr args \<and> k = 2 \<and>
               m1 = m\<lparr>output_log := output_log m @ [args ! 0], unpaused_flag := False\<rparr>)) \<and>
         (\<forall>m'. resume m iv = Some (Inr m') \<longrightarrow>
            halting_cycle (m\<lparr>unpaused_flag := True, input := input_list iv\<rparr>) m' \<or>
            output_cycle (m\<lparr>unpaused_flag := True, input := input_list iv\<rparr>) m') \<and>
         (\<forall>m'. unpaused_flag m \<longrightarrow> run m iv = Some (Inr m') \<longrightarrow>
            halting_cycle (m\<lparr>input := input_list iv\<rparr>) m' \<or>
            output_cycle (m\<lparr>input := input_list iv\<rparr>) m') \<and>
         (\<not> unpaused_flag m \<longrightarrow> run m iv = Some (Inr (m\<lparr>input := input_list iv\<rparr>)))"
proof (intro conjI allI impI)
  fix modes k m1 assume "output_op m modes = Inr (k, m1)"
  from output_op_exact [OF this] assms
  show "\<exists>args. follow_pointers m modes 1 False = Inr args \<and> k = 2 \<and>
               m1 = m\<lparr>output_log := output_log m @ [args ! 0], unpaused_flag := False\<rparr>"
    by simp
next
  fix m' assume "resume m iv = Some (Inr m')"
  then have "run_loop (m\<lparr>unpaused_flag := True, input := input_list iv\<rparr>) = Some (Inr m')"
    by (simp add: resume_def run_def)
  from run_loop_cycle [OF this] assms
  show "halting_cycle (m\<lparr>unpaused_flag := True, input := input_list iv\<rparr>) m' \<or>
        output_cycle (m\<lparr>unpaused_flag := True, input := input_list iv\<rparr>) m'"
    by simp
next
  fix m' assume u: "unpaused_flag m" and "run m iv = Some (Inr m')"
  then have "run_loop (m\<lparr>input := input_list iv\<rparr>) = Some (Inr m')"
    by (simp add: run_def)
  from run_loop_cycle [OF this] assms u
  show "halting_cycle (m\<lparr>input := input_list iv\<rparr>) m' \<or>
        output_cycle (m\<lparr>input := input_list iv\<rparr>) m'"
    by simp
next
  assume "\<not> unpaused_flag m"
  then show "run m iv = Some (Inr (m\<lparr>input := input_list iv\<rparr>))"
    by (simp add: run_def run_loop_stopped)
qed

theorem one_output_per_cycle_witness:
  "init [104, 1, 104, 2, 104, 3, 99] True 8 = Inr
     \<lparr>code = [104, 1, 104, 2, 104, 3, 99, 0], pointer = 0, relative_base = 0,
        input = [], output_log = [], allow_pausing = True, unpaused_flag = True,
        continue_flag = True\<rparr> \<and>
   run \<lparr>code = [104, 1, 104, 2, 104, 3, 99, 0], pointer = 0, relative_base = 0,
        input = [], output_log = [], allow_pausing = True, unpaused_flag = True,
        continue_flag = True\<rparr> PyNone = Some (Inr
     \<lparr>code = [104, 1, 104, 2, 104, 3, 99, 0], pointer = 2, relative_base = 0,
        input = [None], output_log = [1], allow_pausing = True, unpaused_flag = False,
        continue_flag = True\<rparr>) \<and>
   (halting_cycle \<lparr>code = [104, 1, 104, 2, 104, 3, 99, 0], pointer = 0, relative_base = 0,
        input = [None], output_log = [], allow_pausing = True, unpaused_flag = True,
        continue_flag = True\<rparr>
      \<lparr>code = [104, 1, 104, 2, 104, 3, 99, 0], pointer = 2, relative_base = 0,
        input = [None], output_log = [1], allow_pausing = True, unpaused_flag = False,
        continue_flag = True\<rparr> \<or>
    output_cycle \<lparr>code = [104, 1, 104, 2, 104, 3, 99, 0], pointer = 0, relative_base = 0,
        input = [None], output_log = [], allow_pausing = True, unpaused_flag = True,
        continue_flag = True\<rparr>
      \<lparr>code = [104, 1, 104, 2, 104, 3, 99, 0], pointer = 2, relative_base = 0,
        input = [None], output_log = [1], allow_pausing = True, unpaused_flag = False,
        continue_flag = True\<rparr>) \<and>
   resume \<lparr>code = [104, 1, 104, 2, 104, 3, 99, 0], pointer = 2, relative_base = 0,
        input = [None], output_log = [1], allow_pausing = True, unpaused_flag = False,
        continue_flag = True\<rparr> PyNone = Some (Inr
     \<lparr>code = [104, 1, 104, 2, 104, 3, 99, 0], pointer = 4, relative_base = 0,
        input = [None], output_log = [1, 2], allow_pausing = True, unpaused_flag = False,
        continue_flag = True\<rparr>) \<and>
   (halting_cycle \<lparr>code = [104, 1, 104, 2, 104, 3, 99, 0], pointer = 2, relative_base = 0,
        input = [None], output_log = [1], allow_pausing = True, unpaused_flag = True,
        continue_flag = True\<rparr>
      \<lparr>code = [104, 1, 104, 2, 104, 3, 99, 0], pointer = 4, relative_base = 0,
        input = [None], output_log = [1, 2], allow_pausing = True, unpaused_flag = False,
        continue_flag = True\<rparr> \<or>
    output_cycle \<lparr>code = [104, 1, 104, 2, 104, 3, 99, 0], pointer = 2, relative_base = 0,
        input = [None], output_log = [1], allow_pausing = True, unpaused_flag = True,
        continue_flag = True\<rparr>
      \<lparr>code = [104, 1, 104, 2, 104, 3, 99, 0], pointer = 4, relative_base = 0,
        input = [None], output_log = [1, 2], allow_pausing = True, unpaused_flag = False,
        continue_flag = True\<rparr>) \<and>
   resume \<lparr>code = [104, 1, 104, 2, 104, 3, 99, 0], pointer = 4, relative_base = 0,
        input = [None], output_log = [1, 2], allow_pausing = True, unpaused_flag = False,
        continue_flag = True\<rparr> PyNone = Some (Inr
     \<lparr>code = [104, 1, 104, 2, 104, 3, 99, 0], pointer = 6, relative_base = 0,
        input = [None], output_log = [1, 2, 3], allow_pausing = True, unpaused_flag = False,
        continue_flag = True\<rparr>) \<and>
   (halting_cycle \<lparr>code = [104, 1, 104, 2, 104, 3, 99, 0], pointer = 4, relative_base = 0,
        input = [None], output_log = [1, 2], allow_pausing = True, unpaused_flag = True,
        continue_flag = True\<rparr>
      \<lparr>code = [104, 1, 104, 2, 104, 3, 99, 0], pointer = 6, relative_base = 0,
        input = [None], output_log = [1, 2, 3], allow_pausing = True, unpaused_flag = False,
        continue_flag = True\<rparr> \<or>
    output_cycle \<lparr>code = [104, 1, 104, 2, 104, 3, 99, 0], pointer = 4, relative_base = 0,
        input = [None], output_log = [1, 2], allow_pausing = True, unpaused_flag = True,
        continue_flag = True\<rparr>
      \<lparr>code = [104, 1, 104, 2, 104, 3, 99, 0], pointer = 6, relative_base = 0,
        input = [None], output_log = [1, 2, 3], allow_pausing = True, unpaused_flag = False,
        continue_flag = True\<rparr>) \<and>
   status_of \<lparr>code = [104, 1, 104, 2, 104, 3, 99, 0], pointer = 6, relative_base = 0,
        input = [None], output_log = [1, 2, 3], allow_pausing = True, unpaused_flag = False,
        continue_flag = True\<rparr> = Paused \<and>
   resume \<lparr>code = [104, 1, 104, 2, 104, 3, 99, 0], pointer = 6, relative_base = 0,
        input = [None], output_log = [1, 2, 3], allow_pausing = True, unpaused_flag = False,
        continue_flag = True\<rparr> PyNone = Some (Inr
     \<lparr>code = [104, 1, 104, 2, 104, 3, 99, 0], pointer = 7, relative_base = 0,
        input = [None], output_log = [1, 2, 3], allow_pausing = True, unpaused_flag = True,
        continue_flag = False\<rparr>) \<and>
   (halting_cycle \<lparr>code = [104, 1, 104, 2, 104, 3, 99, 0], pointer = 6, relative_base = 0,
        input = [None], output_log = [1, 2, 3], allow_pausing = True, unpaused_flag = True,
        continue_flag = True\<rparr>
      \<lparr>code = [104, 1, 104, 2, 104, 3, 99, 0], pointer = 7, relative_base = 0,
        input = [None], output_log = [1, 2, 3], allow_pausing = True, unpaused_flag = True,
        continue_flag = False\<rparr> \<or>
    output_cycle \<lparr>code = [104, 1, 104, 2, 104, 3, 99, 0], pointer = 6, relative_base = 0,
        input = [None], output_log = [1, 2, 3], allow_pausing = True, unpaused_flag = True,
        continue_flag = True\<rparr>
      \<lparr>code = [104, 1, 104, 2, 104, 3, 99, 0], pointer = 7, relative_base = 0,
        input = [None], output_log = [1, 2, 3], allow_pausing = True, unpaused_flag = True,
        continue_flag = False\<rparr>) \<and>
   status_of \<lparr>code = [104, 1, 104, 2, 104, 3, 99, 0], pointer = 7, relative_base = 0,
        input = [None], output_log = [1, 2, 3], allow_pausing = True, unpaused_flag = True,
        continue_flag = False\<rparr> = Halted"
proof -
  let ?m0 = "\<lparr>code = [104, 1, 104, 2, 104, 3, 99, 0], pointer = 0, relative_base = 0,
        input = [], output_log = [], allow_pausing = True, unpaused_flag = True,
        continue_flag = True\<rparr>"
  let ?m1 = "\<lparr>code = [104, 1, 104, 2, 104, 3, 99, 0], pointer = 2, relative_base = 0,
        input = [None], output_log = [1], allow_pausing = True, unpaused_flag = False,
        continue_flag = True\<rparr>"
  let ?m2 = "\<lparr>code = [104, 1, 104, 2, 104, 3, 99, 0], pointer = 4, relative_base = 0,
        input = [None], output_log = [1, 2], allow_pausing = True, unpaused_flag = False,
        continue_flag = True\<rparr>"
  let ?m3 = "\<lparr>code = [104, 1, 104, 2, 104, 3, 99, 0], pointer = 6, relative_base = 0,
        input = [None], output_log = [1, 2, 3], allow_pausing = True, unpaused_flag = False,
        continue_flag = True\<rparr>"
  let ?m4 = "\<lparr>code = [104, 1, 104, 2, 104, 3, 99, 0], pointer = 7, relative_base = 0,
        input = [None], output_log = [1, 2, 3], allow_pausing = True, unpaused_flag = True,
        continue_flag = False\<rparr>"
  have i: "init [104, 1, 104, 2, 104, 3, 99] True 8 = Inr ?m0" by code_simp
  have r0: "run ?m0 PyNone = Some (Inr ?m1)" by code_simp
  have r1: "resume ?m1 PyNone = Some (Inr ?m2)" by code_simp
  have r2: "resume ?m2 PyNone = Some (Inr ?m3)" by code_simp
  have r3: "resume ?m3 PyNone = Some (Inr ?m4)" by code_simp
  have c0: "halting_cycle \<lparr>code = [104, 1, 104, 2, 104, 3, 99, 0], pointer = 0, relative_base = 0,
        input = [None], output_log = [], allow_pausing = True, unpaused_flag = True,
        continue_flag = True\<rparr> ?m1 \<or>
      output_cycle \<lparr>code = [104, 1, 104, 2, 104, 3, 99, 0], pointer = 0, relative_base = 0,
        input = [None], output_log = [], allow_pausing = True, unpaused_flag = True,
        continue_flag = True\<rparr> ?m1"
    using one_output_per_cycle [of ?m0 PyNone] r0 by simp
  have c1: "halting_cycle \<lparr>code = [104, 1, 104, 2, 104, 3, 99, 0], pointer = 2, relative_base = 0,
        input = [None], output_log = [1], allow_pausing = True, unpaused_flag = True,
        continue_flag = True\<rparr> ?m2 \<or>
      output_cycle \<lparr>code = [104, 1, 104, 2, 104, 3, 99, 0], pointer = 2, relative_base = 0,
        input = [None], output_log = [1], allow_pausing = True, unpaused_flag = True,
        continue_flag = True\<rparr> ?m2"
    using one_output_per_cycle [of ?m1 PyNone] r1 by simp
  have c2: "halting_cycle \<lparr>code = [104, 1, 104, 2, 104, 3, 99, 0], pointer = 4, relative_base = 0,
        input = [None], output_log = [1, 2], allow_pausing = True, unpaused_flag = True,
        continue_flag = True\<rparr> ?m3 \<or>
      output_cycle \<lparr>code = [104, 1, 104, 2, 104, 3, 99, 0], pointer = 4, relative_base = 0,
        input = [None], output_log = [1, 2], allow_pausing = True, unpaused_flag = True,
        continue_flag = True\<rparr> ?m3"
    using one_output_per_cycle [of ?m2 PyNone] r2 by simp
  have c3: "halting_cycle \<lparr>code = [104, 1, 104, 2, 104, 3, 99, 0], pointer = 6, relative_base = 0,
        input = [None], output_log = [1, 2, 3], allow_pausing = True, unpaused_flag = True,
        continue_flag = True\<rparr> ?m4 \<or>
      output_cycle \<lparr>code = [104, 1, 104, 2, 104, 3, 99, 0], pointer = 6, relative_base = 0,
        input = [None], output_log = [1, 2, 3], allow_pausing = True, unpaused_flag = True,
        continue_flag = True\<rparr> ?m4"
    using one_output_per_cycle [of ?m3 PyNone] r3 by simp
  have s3: "status_of ?m3 = Paused" and s4: "status_of ?m4 = Halted"
    by (simp_all add: status_of_def)
  from i r0 r1 r2 r3 c0 c1 c2 c3 s3 s4 show ?thesis by blast
qed

text \<open>
  The claim as stated counts calls of \<open>run\<close> as cycles. On the program
  104,1,104,2,104,3,99 the first \<open>run\<close> appends 1 and pauses; a second \<open>run\<close> returns
  the same paused machine and the log is still 1 alone.
\<close>

theorem run_on_paused_machine_counterexample:
  "init [104, 1, 104, 2, 104, 3, 99] True 8 = Inr
     \<lparr>code = [104, 1, 104, 2, 104, 3, 99, 0], pointer = 0, relative_base = 0,
        input = [], output_log = [], allow_pausing = True, unpaused_flag = True,
        continue_flag = True\<rparr> \<and>
   run \<lparr>code = [104, 1, 104, 2, 104, 3, 99, 0], pointer = 0, relative_base = 0,
        input = [], output_log = [], allow_pausing = True, unpaused_flag = True,
        continue_flag = True\<rparr> PyNone = Some (Inr
     \<lparr>code = [104, 1, 104, 2, 104, 3, 99, 0], pointer = 2, relative_base = 0,
        input = [None], output_log = [1], allow_pausing = True, unpaused_flag = False,
        continue_flag = True\<rparr>) \<and>
   status_of \<lparr>code = [104, 1, 104, 2, 104, 3, 99, 0], pointer = 2, relative_base = 0,
        input = [None], output_log = [1], allow_pausing = True, unpaused_flag = False,
        continue_flag = True\<rparr> = Paused \<and>
   run \<lparr>code = [104, 1, 104, 2, 104, 3, 99, 0], pointer = 2, relative_base = 0,
        input = [None], output_log = [1], allow_pausing = True, unpaused_flag = False,
        continue_flag = True\<rparr> PyNone = Some (Inr
     \<lparr>code = [104, 1, 104, 2, 104, 3, 99, 0], pointer = 2, relative_base = 0,
        input = [None], output_log = [1], allow_pausing = True, unpaused_flag = False,
        continue_flag = True\<rparr>) \<and>
   output_log \<lparr>code = [104, 1, 104, 2, 104, 3, 99, 0], pointer = 2, relative_base = 0,
        input = [None], output_log = [1], allow_pausing = True, unpaused_flag = False,
        continue_flag = True\<rparr> = [1]"
  by code_simp

section \<open>Operand resolution\<close>


lemma check_modes_length_nth:
  "i < n \<Longrightarrow> check_modes_length modes n ! i = mode_of modes i"
  by (auto simp: check_modes_length_def mode_of_def nth_append)

lemma check_modes_length_last:
  assumes "0 < n" and "length modes \<le> n"
  shows "last (check_modes_length modes n) = mode_of modes (n - 1)"
proof (cases "length modes < n")
  case True
  then have "last (modes @ replicate (n - length modes) 0) = 0"
    by (simp add: last_append)
  with True show ?thesis
    by (auto simp add: check_modes_length_def mode_of_def)
next
  case False
  with assms have l: "length modes = n" by simp
  with assms have "modes \<noteq> []" by auto
  then have "last modes = modes ! (n - 1)"
    using l by (simp add: last_conv_nth)
  with l assms show ?thesis
    by (simp add: check_modes_length_def mode_of_def)
qed

lemma deref_loop_step:
  "deref_loop m modes args (i # rest) =
     (case read_operand m (modes ! i) (args ! i) of
        Inl e \<Rightarrow> Inl e
      | Inr v \<Rightarrow> deref_loop m modes (args[i := v]) rest)"
proof -
  have "args[i := args ! i] = args" by simp
  then show ?thesis
    by (simp add: read_operand_def Let_def split: sum.splits)
qed

lemma deref_loop_Inr:
  assumes "distinct is" and "\<forall>i\<in>set is. i < length args"
    and "deref_loop m modes args is = Inr res"
  shows "length res = length args \<and>
         (\<forall>i<length args. if i \<in> set is then read_operand m (modes ! i) (args ! i) = Inr (res ! i)
                           else res ! i = args ! i)"
  using assms
proof (induction "is" arbitrary: args)
  case Nil
  then show ?case by simp
next
  case (Cons i rest)
  from Cons.prems(3) obtain v where v: "read_operand m (modes ! i) (args ! i) = Inr v"
    and d: "deref_loop m modes (args[i := v]) rest = Inr res"
    unfolding deref_loop_step by (auto split: sum.splits)
  have dr: "distinct rest" and ni: "i \<notin> set rest" and il: "i < length args"
    and rl: "\<forall>j\<in>set rest. j < length (args[i := v])"
    using Cons.prems by auto
  from Cons.IH [OF dr rl d]
  have len: "length res = length args"
    and IH: "\<And>j. j < length args \<Longrightarrow>
       (if j \<in> set rest then read_operand m (modes ! j) (args[i := v] ! j) = Inr (res ! j)
        else res ! j = args[i := v] ! j)"
    by auto
  have "if j \<in> set (i # rest) then read_operand m (modes ! j) (args ! j) = Inr (res ! j)
        else res ! j = args ! j" if j: "j < length args" for j
  proof (cases "j = i")
    case True
    with IH [OF il] ni il v show ?thesis by simp
  next
    case False
    then have "args[i := v] ! j = args ! j"
      by (metis nth_list_update_neq)
    with False IH [OF j] show ?thesis by auto
  qed
  with len show ?case by blast
qed

lemma deref_loop_total:
  assumes "distinct is" and "\<forall>i\<in>set is. i < length args"
    and "\<forall>i\<in>set is. \<exists>v. read_operand m (modes ! i) (args ! i) = Inr v"
  shows "\<exists>res. deref_loop m modes args is = Inr res"
  using assms
proof (induction "is" arbitrary: args)
  case Nil
  then show ?case by simp
next
  case (Cons i rest)
  then obtain v where v: "read_operand m (modes ! i) (args ! i) = Inr v" by auto
  have "\<forall>j\<in>set rest. args[i := v] ! j = args ! j"
    using Cons.prems(1) by (metis distinct.simps(2) nth_list_update_neq)
  with Cons.prems have "\<exists>res. deref_loop m modes (args[i := v]) rest = Inr res"
    by (intro Cons.IH) auto
  with v show ?case
    unfolding deref_loop_step by simp
qed


lemma getitem_addressable:
  "addressable m a \<Longrightarrow> \<exists>v. getitem (code m) a = Inr v"
  by (simp add: addressable_def getitem_def np_index_def)

lemma read_operand_addressable:
  assumes "mode = 0 \<longrightarrow> addressable m (sint arg)"
    and "mode = 2 \<longrightarrow> addressable m (sint (relative_base m + arg))"
  shows "\<exists>v. read_operand m mode arg = Inr v"
  using assms by (auto simp: read_operand_def dest: getitem_addressable)

lemma follow_pointers_unfold:
  assumes d: "deref_loop m (check_modes_length modes n) (operand_cells m n)
                [0..<length (operand_cells m n) - 1] = Inr res1"
    and ne: "res1 \<noteq> []"
  shows "follow_pointers m modes n ho =
     (if ho then Inr (if last (check_modes_length modes n) = 2
                      then res1[length res1 - 1 := last res1 + relative_base m] else res1)
      else case read_operand m (last (check_modes_length modes n)) (last res1) of
             Inl e \<Rightarrow> Inl e
           | Inr v \<Rightarrow> Inr (res1[length res1 - 1 := v]))"
proof -
  have "res1[length res1 - 1 := last res1] = res1"
    using ne by (simp add: last_conv_nth)
  then show ?thesis
    using d ne by (simp add: follow_pointers_def read_operand_def Let_def split: sum.splits)
qed

lemma follow_pointers_resolved:
  assumes surplus: "length modes \<le> n"
    and present: "length (operand_cells m n) = n"
    and pos: "0 < n"
    and reads: "\<forall>i<n. \<not> (ho \<and> i = n - 1) \<longrightarrow>
        (\<exists>v. read_operand m (mode_of modes i) (operand_cells m n ! i) = Inr v)"
  shows "\<exists>res. follow_pointers m modes n ho = Inr res \<and> length res = n \<and>
     (\<forall>i<n. if ho \<and> i = n - 1
        then res ! i = (if mode_of modes i = 2 then operand_cells m n ! i + relative_base m
                        else operand_cells m n ! i)
        else read_operand m (mode_of modes i) (operand_cells m n ! i) = Inr (res ! i))"
proof -
  let ?args = "operand_cells m n"
  let ?modes = "check_modes_length modes n"
  let ?is = "[0..<length ?args - 1]"
  have di: "distinct ?is" and li: "\<forall>i\<in>set ?is. i < length ?args" by auto
  have mi: "?modes ! i = mode_of modes i" if "i < n" for i
    using that by (rule check_modes_length_nth)
  have "\<forall>i\<in>set ?is. \<exists>v. read_operand m (?modes ! i) (?args ! i) = Inr v"
    using reads present mi by auto
  from deref_loop_total [OF di li this]
  obtain res1 where d: "deref_loop m ?modes ?args ?is = Inr res1" by blast
  from deref_loop_Inr [OF di li d] present
  have l1: "length res1 = n"
    and r1: "\<And>i. i < n \<Longrightarrow>
       (if i \<in> set ?is then read_operand m (?modes ! i) (?args ! i) = Inr (res1 ! i)
        else res1 ! i = ?args ! i)"
    by auto
  from l1 pos have ne: "res1 \<noteq> []" by auto
  have lastr: "last res1 = ?args ! (n - 1)"
    using r1 [of "n - 1"] pos present l1 ne by (simp add: last_conv_nth)
  have lastm: "last ?modes = mode_of modes (n - 1)"
    using pos surplus by (rule check_modes_length_last)
  have early: "read_operand m (mode_of modes i) (?args ! i) = Inr (res1 ! i)" if "i < n - 1" for i
    using r1 [of i] that present mi [of i] by simp
  note fp = follow_pointers_unfold [OF d ne, of ho, unfolded lastr lastm l1]
  show ?thesis
  proof (cases ho)
    case True
    let ?res = "if mode_of modes (n - 1) = 2
                then res1[n - 1 := ?args ! (n - 1) + relative_base m] else res1"
    from True fp have f: "follow_pointers m modes n ho = Inr ?res" by simp
    have "length ?res = n" using l1 by simp
    moreover have "if ho \<and> i = n - 1
        then ?res ! i = (if mode_of modes i = 2 then ?args ! i + relative_base m else ?args ! i)
        else read_operand m (mode_of modes i) (?args ! i) = Inr (?res ! i)" if i: "i < n" for i
    proof (cases "i = n - 1")
      case True
      with \<open>ho\<close> l1 pos lastr ne show ?thesis
        by (simp add: last_conv_nth)
    next
      case False
      with i have "i < n - 1" by simp
      from early [OF this] False show ?thesis by simp
    qed
    ultimately show ?thesis using f by blast
  next
    case False
    with reads pos obtain v where
      v: "read_operand m (mode_of modes (n - 1)) (?args ! (n - 1)) = Inr v"
      by (metis diff_less zero_less_one)
    let ?res = "res1[n - 1 := v]"
    from False fp v have f: "follow_pointers m modes n ho = Inr ?res" by simp
    have "length ?res = n" using l1 by simp
    moreover have "if ho \<and> i = n - 1
        then ?res ! i = (if mode_of modes i = 2 then ?args ! i + relative_base m else ?args ! i)
        else read_operand m (mode_of modes i) (?args ! i) = Inr (?res ! i)" if i: "i < n" for i
    proof (cases "i = n - 1")
      case True
      with False v l1 pos show ?thesis by simp
    next
      case ne: False
      with i have "i < n - 1" by simp
      from early [OF this] ne False show ?thesis by simp
    qed
    ultimately show ?thesis using f by blast
  qed
qed

text \<open>
  Instruction cells with at most one mode digit for each operand. Take an instruction with
  \<open>n\<close> operands whose opcode cell has at most \<open>n\<close> mode digits and whose \<open>n\<close>
  operand cells all exist, and let every address that a read operand designates be one
  NumPy accepts. Then \<open>follow_pointers\<close> returns \<open>n\<close> values. A read operand in mode 0
  gives the cell at the literal, in mode 1 the literal, in mode 2 the cell at
  \<open>relative_base + literal\<close>. The final operand of an instruction that writes gives the
  literal in mode 0 and \<open>relative_base + literal\<close> in mode 2, and no cell is read for it.
  Additions are those of int64.
\<close>

theorem operand_resolution:
  assumes "length modes \<le> n"
    and "length (operand_cells m n) = n"
    and "0 < n"
    and "\<forall>i<n. \<not> (ho \<and> i = n - 1) \<longrightarrow>
           (mode_of modes i = 0 \<longrightarrow> addressable m (sint (operand_cells m n ! i))) \<and>
           (mode_of modes i = 2 \<longrightarrow>
              addressable m (sint (relative_base m + operand_cells m n ! i)))"
  shows "\<exists>res. follow_pointers m modes n ho = Inr res \<and> length res = n \<and>
     (\<forall>i<n. if ho \<and> i = n - 1
        then (mode_of modes i = 0 \<longrightarrow> res ! i = operand_cells m n ! i) \<and>
             (mode_of modes i = 2 \<longrightarrow> res ! i = relative_base m + operand_cells m n ! i)
        else (mode_of modes i = 0 \<longrightarrow>
                getitem (code m) (sint (operand_cells m n ! i)) = Inr (res ! i)) \<and>
             (mode_of modes i = 1 \<longrightarrow> res ! i = operand_cells m n ! i) \<and>
             (mode_of modes i = 2 \<longrightarrow>
                getitem (code m) (sint (relative_base m + operand_cells m n ! i)) =
                  Inr (res ! i)))"
proof -
  have "\<forall>i<n. \<not> (ho \<and> i = n - 1) \<longrightarrow>
        (\<exists>v. read_operand m (mode_of modes i) (operand_cells m n ! i) = Inr v)"
    using assms(4) by (auto intro!: read_operand_addressable)
  from follow_pointers_resolved [OF assms(1-3) this]
  obtain res where f: "follow_pointers m modes n ho = Inr res" and l: "length res = n"
    and r: "\<And>i. i < n \<Longrightarrow> (if ho \<and> i = n - 1
        then res ! i = (if mode_of modes i = 2 then operand_cells m n ! i + relative_base m
                        else operand_cells m n ! i)
        else read_operand m (mode_of modes i) (operand_cells m n ! i) = Inr (res ! i))"
    by blast
  have "if ho \<and> i = n - 1
        then (mode_of modes i = 0 \<longrightarrow> res ! i = operand_cells m n ! i) \<and>
             (mode_of modes i = 2 \<longrightarrow> res ! i = relative_base m + operand_cells m n ! i)
        else (mode_of modes i = 0 \<longrightarrow>
                getitem (code m) (sint (operand_cells m n ! i)) = Inr (res ! i)) \<and>
             (mode_of modes i = 1 \<longrightarrow> res ! i = operand_cells m n ! i) \<and>
             (mode_of modes i = 2 \<longrightarrow>
                getitem (code m) (sint (relative_base m + operand_cells m n ! i)) =
                  Inr (res ! i))" if "i < n" for i
    using r [OF that] by (auto simp: read_operand_def add.commute split: if_splits)
  with f l show ?thesis by blast
qed

theorem operand_resolution_witness:
  "(\<exists>res. follow_pointers
      \<lparr>code = [21201, 3, 10, 1, 99, 40, 0, 0], pointer = 0, relative_base = 2, input = [],
        output_log = [], allow_pausing = False, unpaused_flag = True,
        continue_flag = True\<rparr> [2, 1, 2] 3 True = Inr res \<and> length res = 3 \<and>
      getitem [21201, 3, 10, 1, 99, 40, 0, 0] (sint (2 + 3 :: 64 word)) = Inr (res ! 0) \<and>
      res ! 1 = 10 \<and> res ! 2 = 2 + 1) \<and>
   follow_pointers
      \<lparr>code = [21201, 3, 10, 1, 99, 40, 0, 0], pointer = 0, relative_base = 2, input = [],
        output_log = [], allow_pausing = False, unpaused_flag = True,
        continue_flag = True\<rparr> [2, 1, 2] 3 True = Inr [40, 10, 3]"
proof -
  let ?m = "\<lparr>code = [21201, 3, 10, 1, 99, 40, 0, 0], pointer = 0, relative_base = 2,
        input = [], output_log = [], allow_pausing = False, unpaused_flag = True,
        continue_flag = True\<rparr>"
  have c: "operand_cells ?m 3 = [3, 10, 1]" by code_simp
  have h1: "length [2, 1, 2 :: nat] \<le> 3" by simp
  have h2: "length (operand_cells ?m 3) = 3" by (simp add: c)
  have h3: "(0::nat) < 3" by simp
  have a: "addressable ?m (sint (2 + 3 :: 64 word))" by (simp add: addressable_def)
  have h4: "\<forall>i<3. \<not> (True \<and> i = 3 - 1) \<longrightarrow>
           (mode_of [2, 1, 2] i = 0 \<longrightarrow> addressable ?m (sint (operand_cells ?m 3 ! i))) \<and>
           (mode_of [2, 1, 2] i = 2 \<longrightarrow>
              addressable ?m (sint (relative_base ?m + operand_cells ?m 3 ! i)))"
  proof (intro allI impI)
    fix i :: nat
    assume "i < 3" and "\<not> (True \<and> i = 3 - 1)"
    then have "i = 0 \<or> i = 1" by auto
    then show "(mode_of [2, 1, 2] i = 0 \<longrightarrow> addressable ?m (sint (operand_cells ?m 3 ! i))) \<and>
           (mode_of [2, 1, 2] i = 2 \<longrightarrow>
              addressable ?m (sint (relative_base ?m + operand_cells ?m 3 ! i)))"
      using a by (auto simp: c mode_of_def)
  qed
  from operand_resolution [OF h1 h2 h3 h4]
  obtain res where f: "follow_pointers ?m [2, 1, 2] 3 True = Inr res" and l: "length res = 3"
    and r: "\<And>i. i < 3 \<Longrightarrow> (if True \<and> i = 3 - 1
        then (mode_of [2, 1, 2] i = 0 \<longrightarrow> res ! i = operand_cells ?m 3 ! i) \<and>
             (mode_of [2, 1, 2] i = 2 \<longrightarrow> res ! i = relative_base ?m + operand_cells ?m 3 ! i)
        else (mode_of [2, 1, 2] i = 0 \<longrightarrow>
                getitem (code ?m) (sint (operand_cells ?m 3 ! i)) = Inr (res ! i)) \<and>
             (mode_of [2, 1, 2] i = 1 \<longrightarrow> res ! i = operand_cells ?m 3 ! i) \<and>
             (mode_of [2, 1, 2] i = 2 \<longrightarrow>
                getitem (code ?m) (sint (relative_base ?m + operand_cells ?m 3 ! i)) =
                  Inr (res ! i)))"
    by blast
  have r0: "getitem [21201, 3, 10, 1, 99, 40, 0, 0] (sint (2 + 3 :: 64 word)) = Inr (res ! 0)"
    using r [of 0] by (simp add: c mode_of_def)
  have r1: "res ! 1 = 10"
    using r [of 1] by (simp add: c mode_of_def)
  have r2: "res ! 2 = 2 + 1"
    using r [of 2] by (simp add: c mode_of_def)
  have v: "follow_pointers ?m [2, 1, 2] 3 True = Inr [40, 10, 3]" by code_simp
  from f l r0 r1 r2 v show ?thesis by blast
qed

text \<open>
  C1. The mode rules of the claim give every operand the mode of its own digit. The loop
  of \<open>follow_pointers\<close> does so for the operands before the last, \<open>modes[i]\<close>, but the
  final operand gets \<open>modes[-1]\<close>, the last digit of the list, and
  \<open>check_modes_length\<close> pads a short list without cutting a long one. A cell with one
  digit more than operands is therefore resolved against the rules. The cell 1203 is an
  input instruction whose one operand has mode 2, followed by a further digit 1: with
  relative base 5 and literal 1 the rules give the target address 6, and the code resolves
  the target to 1 and stores the input 77 in cell 1.
\<close>

theorem surplus_mode_digit_evaluation:
  "parse_full_opcode 1203 = Inr ([2, 1], 3) \<and> mode_of [2, 1] 0 = 2 \<and>
   follow_pointers
     \<lparr>code = [109, 5, 1203, 1, 99, 0, 0, 0], pointer = 2, relative_base = 5,
        input = [Some 77], output_log = [], allow_pausing = False, unpaused_flag = True,
        continue_flag = True\<rparr> [2, 1] 1 True = Inr [1] \<and>
   init [109, 5, 1203, 1, 99] False 8 =
     Inr \<lparr>code = [109, 5, 1203, 1, 99, 0, 0, 0], pointer = 0, relative_base = 0,
        input = [], output_log = [], allow_pausing = False, unpaused_flag = True,
        continue_flag = True\<rparr> \<and>
   run \<lparr>code = [109, 5, 1203, 1, 99, 0, 0, 0], pointer = 0, relative_base = 0,
        input = [], output_log = [], allow_pausing = False, unpaused_flag = True,
        continue_flag = True\<rparr> (PyInt 77) =
     Some (Inr \<lparr>code = [109, 77, 1203, 1, 99, 0, 0, 0], pointer = 5, relative_base = 5,
        input = [], output_log = [], allow_pausing = False, unpaused_flag = True,
        continue_flag = False\<rparr>)"
  by code_simp

section \<open>Immediate mode on a write target\<close>





section \<open>Addresses out of range\<close>

lemma getitem_error: "getitem xs i = Inl e \<Longrightarrow> e = IndexError_out_of_bounds"
  by (auto simp: getitem_def np_index_def split: if_splits)

lemma deref_loop_error:
  "deref_loop m modes args is = Inl e \<Longrightarrow> e = IndexError_out_of_bounds"
proof (induction "is" arbitrary: args)
  case Nil
  then show ?case by simp
next
  case (Cons i rest)
  then show ?case
    by (auto simp: Let_def split: if_splits sum.splits dest: getitem_error)
qed

lemma follow_pointers_error:
  "follow_pointers m modes n ho = Inl e \<Longrightarrow> e = IndexError_out_of_bounds"
  by (auto simp: follow_pointers_def Let_def split: if_splits sum.splits
           dest: getitem_error deref_loop_error)

lemma add_fail_frame: "add m modes = Inl (e, m') \<Longrightarrow> m' = m"
  by (auto simp: add_def split: sum.splits list.splits)

lemma multiply_fail_frame: "multiply m modes = Inl (e, m') \<Longrightarrow> m' = m"
  by (auto simp: multiply_def split: sum.splits list.splits)

lemma less_than_fail_frame: "less_than m modes = Inl (e, m') \<Longrightarrow> m' = m"
  by (auto simp: less_than_def split: sum.splits list.splits)

lemma equals_fail_frame: "equals m modes = Inl (e, m') \<Longrightarrow> m' = m"
  by (auto simp: equals_def split: sum.splits list.splits)

lemma input_op_fail_frame: "input_op m modes = Inl (e, m') \<Longrightarrow> code m' = code m"
  by (auto simp: input_op_def Let_def split: sum.splits list.splits)

lemma output_op_fail_frame: "output_op m modes = Inl (e, m') \<Longrightarrow> m' = m"
  by (auto simp: output_op_def Let_def split: sum.splits list.splits)

lemma jump_if_true_fail_frame: "jump_if_true m modes = Inl (e, m') \<Longrightarrow> m' = m"
  by (auto simp: jump_if_true_def split: sum.splits list.splits if_splits)

lemma jump_if_false_fail_frame: "jump_if_false m modes = Inl (e, m') \<Longrightarrow> m' = m"
  by (auto simp: jump_if_false_def split: sum.splits list.splits if_splits)

lemma shift_fail_frame: "shift m modes = Inl (e, m') \<Longrightarrow> m' = m"
  by (auto simp: shift_def split: sum.splits list.splits)

lemma halt_fail_frame: "halt m modes = Inl (e, m') \<Longrightarrow> m' = m"
  by (auto simp: halt_def)

lemma operate_fail_frame: "operate m w = Inl (e, m') \<Longrightarrow> code m' = code m"
  by (auto simp: operate_def split: sum.splits option.splits prod.splits
      dest!: opcode_dict_cases
      dest: add_fail_frame multiply_fail_frame less_than_fail_frame equals_fail_frame
        input_op_fail_frame output_op_fail_frame jump_if_true_fail_frame
        jump_if_false_fail_frame shift_fail_frame halt_fail_frame)

lemma step_fail_frame: "step m = Inl (e, m') \<Longrightarrow> code m' = code m"
  by (auto simp: step_def split: sum.splits prod.splits dest: operate_fail_frame)

lemma getitem_cell_of:
  "getitem (code m) a =
     (if addressable m a then Inr (code m ! cell_of m a) else Inl IndexError_out_of_bounds)"
  by (simp add: getitem_def np_index_def addressable_def cell_of_def)

lemma setitem_cell_of:
  "setitem (code m) a v =
     (if addressable m a then Inr ((code m)[cell_of m a := v])
      else Inl IndexError_out_of_bounds)"
  by (simp add: setitem_def np_index_def addressable_def cell_of_def)

lemma read_operand_cell_of:
  "read_operand m md lit =
     (if md = 0 \<or> md = 2
      then (if addressable m (operand_address m md lit)
            then Inr (code m ! cell_of m (operand_address m md lit))
            else Inl IndexError_out_of_bounds)
      else Inr lit)"
  by (auto simp: read_operand_def getitem_cell_of operand_address_def)

lemma follow_pointers_closed_form:
  assumes pos: "0 < n" and present: "length (operand_cells m n) = n"
  shows "follow_pointers m modes n ho =
     (if \<forall>i<n. dereferenced n ho i (applied_mode modes n i) \<longrightarrow>
           addressable m (operand_address m (applied_mode modes n i) (operand_cells m n ! i))
      then Inr (map (\<lambda>i. resolved_value m n ho i (applied_mode modes n i)
                          (operand_cells m n ! i)) [0..<n])
      else Inl IndexError_out_of_bounds)"
proof -
  let ?args = "operand_cells m n"
  let ?modes = "check_modes_length modes n"
  let ?is = "[0..<length ?args - 1]"
  let ?am = "applied_mode modes n"
  let ?ok = "\<lambda>i. dereferenced n ho i (?am i) \<longrightarrow>
      addressable m (operand_address m (?am i) (?args ! i))"
  let ?val = "\<lambda>i. resolved_value m n ho i (?am i) (?args ! i)"
  have di: "distinct ?is" and li: "\<forall>i\<in>set ?is. i < length ?args" by auto
  have mi: "?modes ! i = ?am i" if "i < n - 1" for i
    using that by (simp add: applied_mode_def check_modes_length_nth)
  have lm: "last ?modes = ?am (n - 1)" by (simp add: applied_mode_def)
  have early_ok: "(\<exists>v. read_operand m (?modes ! i) (?args ! i) = Inr v) \<longleftrightarrow> ?ok i"
    if "i < n - 1" for i
    using that mi [OF that]
    by (auto simp: read_operand_cell_of dereferenced_def)
  show ?thesis
  proof (cases "\<forall>i<n - 1. ?ok i")
    case False
    then obtain i where i: "i < n - 1" and bad: "\<not> ?ok i" by blast
    from i have "i < n" by simp
    with bad have "\<not> (\<forall>i<n. ?ok i)" by blast
    moreover have "follow_pointers m modes n ho = Inl IndexError_out_of_bounds"
    proof (cases "deref_loop m ?modes ?args ?is")
      case (Inl e)
      then show ?thesis
        using deref_loop_error [OF Inl] by (simp add: follow_pointers_def Let_def)
    next
      case (Inr res1)
      from deref_loop_Inr [OF di li Inr] present i
      have "read_operand m (?modes ! i) (?args ! i) = Inr (res1 ! i)" by auto
      with early_ok [OF i] bad show ?thesis by blast
    qed
    ultimately show ?thesis by simp
  next
    case True
    then have "\<forall>i\<in>set ?is. \<exists>v. read_operand m (?modes ! i) (?args ! i) = Inr v"
      using early_ok present by auto
    from deref_loop_total [OF di li this]
    obtain res1 where d: "deref_loop m ?modes ?args ?is = Inr res1" by blast
    from deref_loop_Inr [OF di li d] present
    have l1: "length res1 = n"
      and r1: "\<And>i. i < n \<Longrightarrow>
         (if i \<in> set ?is then read_operand m (?modes ! i) (?args ! i) = Inr (res1 ! i)
          else res1 ! i = ?args ! i)"
      by auto
    from l1 pos have ne: "res1 \<noteq> []" by auto
    have lastr: "last res1 = ?args ! (n - 1)"
      using r1 [of "n - 1"] pos present l1 ne by (simp add: last_conv_nth)
    have early: "res1 ! i = ?val i" if i: "i < n - 1" for i
    proof -
      from r1 [of i] i present have "read_operand m (?am i) (?args ! i) = Inr (res1 ! i)"
        using mi [OF i] by simp
      moreover from True i have "?ok i" by simp
      ultimately show ?thesis
        using i by (auto simp: read_operand_cell_of resolved_value_def dereferenced_def
            split: if_splits)
    qed
    note fp = follow_pointers_unfold [OF d ne, of ho, unfolded lastr lm l1]
    show ?thesis
    proof (cases ho)
      case ho: True
      have okl: "?ok (n - 1)" using ho by (simp add: dereferenced_def)
      have "?ok i" if "i < n" for i
      proof -
        from that have "i < n - 1 \<or> i = n - 1" by auto
        with True okl show ?thesis by blast
      qed
      then have all: "\<forall>i<n. ?ok i" by blast
      let ?res = "if ?am (n - 1) = 2
                  then res1[n - 1 := ?args ! (n - 1) + relative_base m] else res1"
      from ho fp have f: "follow_pointers m modes n ho = Inr ?res" by simp
      have "?res = map ?val [0..<n]"
      proof (rule nth_equalityI)
        show "length ?res = length (map ?val [0..<n])" using l1 by simp
      next
        fix i assume "i < length ?res"
        then have i: "i < n" using l1 by (simp split: if_splits)
        show "?res ! i = map ?val [0..<n] ! i"
        proof (cases "i = n - 1")
          case True
          with ho l1 pos lastr ne show ?thesis
            by (simp add: resolved_value_def last_conv_nth)
        next
          case False
          with i have "i < n - 1" by simp
          from early [OF this] False i show ?thesis by simp
        qed
      qed
      with f all show ?thesis by simp
    next
      case nho: False
      show ?thesis
      proof (cases "?ok (n - 1)")
        case bad: False
        then have "\<not> (\<forall>i<n. ?ok i)" using pos by (metis diff_less zero_less_one)
        moreover from bad nho have "read_operand m (?am (n - 1)) (?args ! (n - 1)) =
            Inl IndexError_out_of_bounds"
          by (auto simp: read_operand_cell_of dereferenced_def)
        with nho fp have "follow_pointers m modes n ho = Inl IndexError_out_of_bounds"
          by simp
        ultimately show ?thesis by simp
      next
        case okl: True
        have "?ok i" if "i < n" for i
        proof -
          from that have "i < n - 1 \<or> i = n - 1" by auto
          with True okl show ?thesis by blast
        qed
        then have all: "\<forall>i<n. ?ok i" by blast
        from okl nho have rv: "read_operand m (?am (n - 1)) (?args ! (n - 1)) =
            Inr (?val (n - 1))"
          by (auto simp: read_operand_cell_of dereferenced_def resolved_value_def)
        with nho fp have f: "follow_pointers m modes n ho = Inr (res1[n - 1 := ?val (n - 1)])"
          by simp
        have "res1[n - 1 := ?val (n - 1)] = map ?val [0..<n]"
        proof (rule nth_equalityI)
          show "length (res1[n - 1 := ?val (n - 1)]) = length (map ?val [0..<n])"
            using l1 by simp
        next
          fix i assume "i < length (res1[n - 1 := ?val (n - 1)])"
          then have i: "i < n" using l1 by simp
          show "res1[n - 1 := ?val (n - 1)] ! i = map ?val [0..<n] ! i"
          proof (cases "i = n - 1")
            case True
            with l1 pos i show ?thesis by simp
          next
            case False
            with i have "i < n - 1" by simp
            from early [OF this] False i show ?thesis by simp
          qed
        qed
        with f all show ?thesis by simp
      qed
    qed
  qed
qed

lemma follow_pointers_length:
  assumes "follow_pointers m modes n ho = Inr res"
  shows "length res = length (operand_cells m n) \<and> res \<noteq> []"
proof -
  let ?args = "operand_cells m n"
  let ?is = "[0..<length ?args - 1]"
  from assms obtain res1 where
    d: "deref_loop m (check_modes_length modes n) ?args ?is = Inr res1" and ne: "res1 \<noteq> []"
    by (auto simp: follow_pointers_def Let_def split: sum.splits if_splits)
  have di: "distinct ?is" and li: "\<forall>i\<in>set ?is. i < length ?args" by auto
  from deref_loop_Inr [OF di li d] have l1: "length res1 = length ?args" by simp
  from follow_pointers_unfold [OF d ne, of ho] assms l1 ne show ?thesis
    by (auto split: if_splits sum.splits)
qed

lemma one_operand_missing:
  assumes "length (operand_cells m 1) < 1"
  shows "follow_pointers m modes 1 ho = Inl IndexError_out_of_bounds"
proof (cases "follow_pointers m modes 1 ho")
  case (Inl e)
  with follow_pointers_error [OF Inl] show ?thesis by simp
next
  case (Inr res)
  from follow_pointers_length [OF Inr] assms show ?thesis by simp
qed

lemma missing_operand_cells_fail:
  assumes d: "opcode_dict opcode = Some f"
    and l: "length (operand_cells m (num_operands opcode)) < num_operands opcode"
  shows "\<exists>e. f m modes = Inl (e, m) \<and> (e = IndexError_out_of_bounds \<or> e = ValueError_unpack)"
proof -
  have three: "\<exists>e. (case follow_pointers m modes 3 True of
        Inl e \<Rightarrow> Inl (e, m)
      | Inr args \<Rightarrow> (case args of [a, b, c] \<Rightarrow> h a b c | _ \<Rightarrow> Inl (ValueError_unpack, m))) =
        (Inl (e, m) :: outcome) \<and> (e = IndexError_out_of_bounds \<or> e = ValueError_unpack)"
    if "length (operand_cells m 3) < 3" for h
  proof (cases "follow_pointers m modes 3 True")
    case (Inl e)
    with follow_pointers_error [OF Inl] show ?thesis by simp
  next
    case (Inr args)
    from follow_pointers_length [OF Inr] that have "length args < 3" by simp
    with Inr show ?thesis by (auto split: list.splits)
  qed
  have two: "\<exists>e. (case follow_pointers m modes 2 False of
        Inl e \<Rightarrow> Inl (e, m)
      | Inr args \<Rightarrow> (case args of [a, b] \<Rightarrow> h a b | _ \<Rightarrow> Inl (ValueError_unpack, m))) =
        (Inl (e, m) :: outcome) \<and> (e = IndexError_out_of_bounds \<or> e = ValueError_unpack)"
    if "length (operand_cells m 2) < 2" for h
  proof (cases "follow_pointers m modes 2 False")
    case (Inl e)
    with follow_pointers_error [OF Inl] show ?thesis by simp
  next
    case (Inr args)
    from follow_pointers_length [OF Inr] that have "length args < 2" by simp
    with Inr show ?thesis by (auto split: list.splits)
  qed
  from opcode_dict_Some [OF d] show ?thesis
  proof (elim disjE conjE)
    assume "opcode = 1" "f = add"
    with l three show ?thesis by (simp add: num_operands_def add_def)
  next
    assume "opcode = 2" "f = multiply"
    with l three show ?thesis by (simp add: num_operands_def multiply_def)
  next
    assume "opcode = 3" "f = input_op"
    with l one_operand_missing [of m modes True] show ?thesis
      by (simp add: num_operands_def input_op_def)
  next
    assume "opcode = 4" "f = output_op"
    with l one_operand_missing [of m modes False] show ?thesis
      by (simp add: num_operands_def output_op_def)
  next
    assume "opcode = 5" "f = jump_if_true"
    with l two show ?thesis by (simp add: num_operands_def jump_if_true_def)
  next
    assume "opcode = 6" "f = jump_if_false"
    with l two show ?thesis by (simp add: num_operands_def jump_if_false_def)
  next
    assume "opcode = 7" "f = less_than"
    with l three show ?thesis by (simp add: num_operands_def less_than_def)
  next
    assume "opcode = 8" "f = equals"
    with l three show ?thesis by (simp add: num_operands_def equals_def)
  next
    assume "opcode = 9" "f = shift"
    with l one_operand_missing [of m modes False] show ?thesis
      by (simp add: num_operands_def shift_def)
  next
    assume "opcode = 99" "f = halt"
    with l show ?thesis by (simp add: num_operands_def)
  qed
qed

lemma step_fetch:
  "step m =
     (if addressable m (pointer m)
      then (case operate m (code m ! cell_of m (pointer m)) of
              Inl em \<Rightarrow> Inl em
            | Inr (toadd, m') \<Rightarrow> Inr (m'\<lparr>pointer := pointer m' + toadd\<rparr>))
      else Inl (IndexError_out_of_bounds, m))"
  by (simp add: step_def getitem_cell_of)

text \<open>
  C7, as the code has it. Memory is addressed by NumPy integer indexing in the
  instruction fetch, in the read of an operand in mode 0 or 2 and in every store. There the
  addresses are \<open>[-capacity, capacity)\<close>: a negative address \<open>a\<close> in that range
  designates cell \<open>capacity + a\<close>, and any address outside it raises IndexError. So the
  fetch at a pointer out of that range raises; operand resolution, for an instruction
  whose operand cells are all there, returns the resolved values when every address it
  reads is in that range and raises IndexError otherwise; and the store of add, multiply,
  less-than, equals or input writes the designated cell or raises IndexError. The operand
  cells themselves are taken by the slice \<open>code[pointer+1 : pointer+1+n]\<close>, which NumPy
  clips to the array without raising: an instruction that does not get all its operand
  cells raises too (IndexError, or ValueError when the operands are unpacked). An iteration
  of the loop that raises, for whatever reason, leaves every memory cell as it was.
\<close>

theorem out_of_range_access:
  "(\<forall>e m'. step m = Inl (e, m') \<longrightarrow> code m' = code m) \<and>
   step m =
     (if addressable m (pointer m)
      then (case operate m (code m ! cell_of m (pointer m)) of
              Inl em \<Rightarrow> Inl em
            | Inr (toadd, m') \<Rightarrow> Inr (m'\<lparr>pointer := pointer m' + toadd\<rparr>))
      else Inl (IndexError_out_of_bounds, m)) \<and>
   (\<forall>modes n ho. 0 < n \<and> length (operand_cells m n) = n \<longrightarrow>
      follow_pointers m modes n ho =
        (if \<forall>i<n. dereferenced n ho i (applied_mode modes n i) \<longrightarrow>
              addressable m
                (operand_address m (applied_mode modes n i) (operand_cells m n ! i))
         then Inr (map (\<lambda>i. resolved_value m n ho i (applied_mode modes n i)
                             (operand_cells m n ! i)) [0..<n])
         else Inl IndexError_out_of_bounds)) \<and>
   (\<forall>modes x y t. follow_pointers m modes 3 True = Inr [x, y, t] \<longrightarrow>
      add m modes =
        (if addressable m (sint t) then Inr (4, m\<lparr>code := (code m)[cell_of m (sint t) := x + y]\<rparr>)
         else Inl (IndexError_out_of_bounds, m)) \<and>
      multiply m modes =
        (if addressable m (sint t) then Inr (4, m\<lparr>code := (code m)[cell_of m (sint t) := x * y]\<rparr>)
         else Inl (IndexError_out_of_bounds, m)) \<and>
      less_than m modes =
        (if addressable m (sint t)
         then Inr (4, m\<lparr>code := (code m)[cell_of m (sint t) := if sint x < sint y then 1 else 0]\<rparr>)
         else Inl (IndexError_out_of_bounds, m)) \<and>
      equals m modes =
        (if addressable m (sint t)
         then Inr (4, m\<lparr>code := (code m)[cell_of m (sint t) := if x = y then 1 else 0]\<rparr>)
         else Inl (IndexError_out_of_bounds, m))) \<and>
   (\<forall>modes t v rest. follow_pointers m modes 1 True = Inr [t] \<and> input m = v # rest \<longrightarrow>
      input_op m modes =
        (if addressable m (sint t)
         then (case v of
                 None \<Rightarrow> Inl (TypeError_not_int, m\<lparr>input := rest\<rparr>)
               | Some x \<Rightarrow>
                   if in_int64 x
                   then Inr (2, m\<lparr>input := rest,
                                  code := (code m)[cell_of m (sint t) := word_of_int x]\<rparr>)
                   else Inl (OverflowError_int64, m\<lparr>input := rest\<rparr>))
         else Inl (IndexError_out_of_bounds, m\<lparr>input := rest\<rparr>))) \<and>
   (\<forall>opcode f modes. opcode_dict opcode = Some f \<and>
      length (operand_cells m (num_operands opcode)) < num_operands opcode \<longrightarrow>
      (\<exists>e. f m modes = Inl (e, m) \<and> (e = IndexError_out_of_bounds \<or> e = ValueError_unpack)))"
proof (intro conjI allI impI)
  fix e m' assume "step m = Inl (e, m')"
  then show "code m' = code m" by (rule step_fail_frame)
next
  show "step m =
     (if addressable m (pointer m)
      then (case operate m (code m ! cell_of m (pointer m)) of
              Inl em \<Rightarrow> Inl em
            | Inr (toadd, m') \<Rightarrow> Inr (m'\<lparr>pointer := pointer m' + toadd\<rparr>))
      else Inl (IndexError_out_of_bounds, m))"
    by (rule step_fetch)
next
  fix modes n ho assume "0 < n \<and> length (operand_cells m n) = n"
  then show "follow_pointers m modes n ho =
        (if \<forall>i<n. dereferenced n ho i (applied_mode modes n i) \<longrightarrow>
              addressable m
                (operand_address m (applied_mode modes n i) (operand_cells m n ! i))
         then Inr (map (\<lambda>i. resolved_value m n ho i (applied_mode modes n i)
                             (operand_cells m n ! i)) [0..<n])
         else Inl IndexError_out_of_bounds)"
    by (intro follow_pointers_closed_form) simp_all
next
  fix modes x y t assume a: "follow_pointers m modes 3 True = Inr [x, y, t]"
  then show "add m modes =
        (if addressable m (sint t) then Inr (4, m\<lparr>code := (code m)[cell_of m (sint t) := x + y]\<rparr>)
         else Inl (IndexError_out_of_bounds, m))"
    by (simp add: add_def setitem_cell_of)
  from a show "multiply m modes =
        (if addressable m (sint t) then Inr (4, m\<lparr>code := (code m)[cell_of m (sint t) := x * y]\<rparr>)
         else Inl (IndexError_out_of_bounds, m))"
    by (simp add: multiply_def setitem_cell_of)
  from a show "less_than m modes =
        (if addressable m (sint t)
         then Inr (4, m\<lparr>code := (code m)[cell_of m (sint t) := if sint x < sint y then 1 else 0]\<rparr>)
         else Inl (IndexError_out_of_bounds, m))"
    by (simp add: less_than_def setitem_cell_of)
  from a show "equals m modes =
        (if addressable m (sint t)
         then Inr (4, m\<lparr>code := (code m)[cell_of m (sint t) := if x = y then 1 else 0]\<rparr>)
         else Inl (IndexError_out_of_bounds, m))"
    by (simp add: equals_def setitem_cell_of)
next
  fix modes t v rest
  assume "follow_pointers m modes 1 True = Inr [t] \<and> input m = v # rest"
  then show "input_op m modes =
        (if addressable m (sint t)
         then (case v of
                 None \<Rightarrow> Inl (TypeError_not_int, m\<lparr>input := rest\<rparr>)
               | Some x \<Rightarrow>
                   if in_int64 x
                   then Inr (2, m\<lparr>input := rest,
                                  code := (code m)[cell_of m (sint t) := word_of_int x]\<rparr>)
                   else Inl (OverflowError_int64, m\<lparr>input := rest\<rparr>))
         else Inl (IndexError_out_of_bounds, m\<lparr>input := rest\<rparr>))"
    by (simp add: input_op_def store_input_def np_index_def addressable_def cell_of_def
        split: option.splits)
next
  fix opcode f modes
  assume "opcode_dict opcode = Some f \<and>
      length (operand_cells m (num_operands opcode)) < num_operands opcode"
  then have d: "opcode_dict opcode = Some f"
    and l: "length (operand_cells m (num_operands opcode)) < num_operands opcode"
    by simp_all
  from missing_operand_cells_fail [OF d l]
  show "\<exists>e. f m modes = Inl (e, m) \<and>
      (e = IndexError_out_of_bounds \<or> e = ValueError_unpack)" .
qed

theorem out_of_range_access_witness:
  "add \<lparr>code = [1101, 4, 5, 8, 99, 0, 0, 0], pointer = 0, relative_base = 0,
        input = [], output_log = [], allow_pausing = False, unpaused_flag = True,
        continue_flag = True\<rparr> [1, 1] =
     Inl (IndexError_out_of_bounds,
       \<lparr>code = [1101, 4, 5, 8, 99, 0, 0, 0], pointer = 0, relative_base = 0,
        input = [], output_log = [], allow_pausing = False, unpaused_flag = True,
        continue_flag = True\<rparr>) \<and>
   add \<lparr>code = [1101, 4, 5, - 8, 99, 0, 0, 0], pointer = 0, relative_base = 0,
        input = [], output_log = [], allow_pausing = False, unpaused_flag = True,
        continue_flag = True\<rparr> [1, 1] =
     Inr (4, \<lparr>code = [9, 4, 5, - 8, 99, 0, 0, 0], pointer = 0, relative_base = 0,
        input = [], output_log = [], allow_pausing = False, unpaused_flag = True,
        continue_flag = True\<rparr>) \<and>
   follow_pointers \<lparr>code = [4, - 1, 99, 0, 0, 0, 0, 55], pointer = 0, relative_base = 0,
        input = [], output_log = [], allow_pausing = False, unpaused_flag = True,
        continue_flag = True\<rparr> [] 1 False = Inr [55] \<and>
   follow_pointers \<lparr>code = [4, - 9, 99, 0, 0, 0, 0, 55], pointer = 0, relative_base = 0,
        input = [], output_log = [], allow_pausing = False, unpaused_flag = True,
        continue_flag = True\<rparr> [] 1 False = Inl IndexError_out_of_bounds \<and>
   addressable \<lparr>code = [1105, 1, - 2, 99, 0, 0, 4, 55], pointer = - 2, relative_base = 0,
        input = [], output_log = [], allow_pausing = False, unpaused_flag = True,
        continue_flag = True\<rparr> (- 1) \<and>
   operand_cells \<lparr>code = [1105, 1, - 2, 99, 0, 0, 4, 55], pointer = - 2, relative_base = 0,
        input = [], output_log = [], allow_pausing = False, unpaused_flag = True,
        continue_flag = True\<rparr> 1 = [] \<and>
   (\<exists>e. step \<lparr>code = [1105, 1, - 2, 99, 0, 0, 4, 55], pointer = - 2, relative_base = 0,
        input = [], output_log = [], allow_pausing = False, unpaused_flag = True,
        continue_flag = True\<rparr> =
      Inl (e, \<lparr>code = [1105, 1, - 2, 99, 0, 0, 4, 55], pointer = - 2, relative_base = 0,
        input = [], output_log = [], allow_pausing = False, unpaused_flag = True,
        continue_flag = True\<rparr>) \<and>
      (e = IndexError_out_of_bounds \<or> e = ValueError_unpack))"
proof -
  let ?a = "\<lparr>code = [1101, 4, 5, 8, 99, 0, 0, 0], pointer = 0, relative_base = 0,
        input = [], output_log = [], allow_pausing = False, unpaused_flag = True,
        continue_flag = True\<rparr>"
  let ?b = "\<lparr>code = [1101, 4, 5, - 8, 99, 0, 0, 0], pointer = 0, relative_base = 0,
        input = [], output_log = [], allow_pausing = False, unpaused_flag = True,
        continue_flag = True\<rparr>"
  let ?c = "\<lparr>code = [4, - 1, 99, 0, 0, 0, 0, 55], pointer = 0, relative_base = 0,
        input = [], output_log = [], allow_pausing = False, unpaused_flag = True,
        continue_flag = True\<rparr>"
  let ?d = "\<lparr>code = [4, - 9, 99, 0, 0, 0, 0, 55], pointer = 0, relative_base = 0,
        input = [], output_log = [], allow_pausing = False, unpaused_flag = True,
        continue_flag = True\<rparr>"
  let ?e = "\<lparr>code = [1105, 1, - 2, 99, 0, 0, 4, 55], pointer = - 2, relative_base = 0,
        input = [], output_log = [], allow_pausing = False, unpaused_flag = True,
        continue_flag = True\<rparr>"
  note wr = out_of_range_access [THEN conjunct2, THEN conjunct2, THEN conjunct2,
      THEN conjunct1, rule_format, THEN conjunct1]
  note rd = out_of_range_access [THEN conjunct2, THEN conjunct2, THEN conjunct1, rule_format]
  note fetch = out_of_range_access [THEN conjunct2, THEN conjunct1]
  note miss = out_of_range_access [THEN conjunct2, THEN conjunct2, THEN conjunct2,
      THEN conjunct2, THEN conjunct2, rule_format]
  have fa: "follow_pointers ?a [1, 1] 3 True = Inr [4, 5, 8]" by code_simp
  have na: "\<not> addressable ?a (sint (8 :: 64 word))" by (simp add: addressable_def)
  have A: "add ?a [1, 1] = Inl (IndexError_out_of_bounds, ?a)"
    using wr [of ?a "[1, 1]" 4 5 8] fa na by simp
  have fb: "follow_pointers ?b [1, 1] 3 True = Inr [4, 5, - 8]" by code_simp
  have ab: "addressable ?b (sint (- 8 :: 64 word))" by (simp add: addressable_def)
  have B: "add ?b [1, 1] = Inr (4, ?b\<lparr>code := [9, 4, 5, - 8, 99, 0, 0, 0]\<rparr>)"
    using wr [of ?b "[1, 1]" 4 5 "- 8"] fb ab by (simp add: cell_of_def)
  have cc0: "operand_cells ?c 1 = [- 1]" by code_simp
  then have cc: "operand_cells ?c (Suc 0) = [- 1]" by simp
  have C: "follow_pointers ?c [] 1 False = Inr [55]"
    using rd [of 1 ?c "[]" False]
    by (simp add: cc cc0 applied_mode_def check_modes_length_def dereferenced_def
        operand_address_def addressable_def resolved_value_def cell_of_def)
  have cd0: "operand_cells ?d 1 = [- 9]" by code_simp
  then have cd: "operand_cells ?d (Suc 0) = [- 9]" by simp
  have D: "follow_pointers ?d [] 1 False = Inl IndexError_out_of_bounds"
    using rd [of 1 ?d "[]" False]
    by (simp add: cd cd0 applied_mode_def check_modes_length_def dereferenced_def
        operand_address_def addressable_def)
  have ae: "addressable ?e (- 1)" and pe: "addressable ?e (pointer ?e)"
    by (simp_all add: addressable_def)
  have ce: "operand_cells ?e 1 = []" by code_simp
  then have ce': "operand_cells ?e (Suc 0) = []" by simp
  have pa: "parse_full_opcode 4 = Inr ([], 4)" by code_simp
  have op: "operate ?e 4 = output_op ?e []"
    by (simp add: operate_def pa opcode_dict_def)
  from miss [of 4 output_op ?e "[]"] ce'
  obtain e where e: "output_op ?e [] = Inl (e, ?e)"
    and ee: "e = IndexError_out_of_bounds \<or> e = ValueError_unpack"
    by (auto simp: opcode_dict_def num_operands_def)
  have "step ?e = Inl (e, ?e)"
    using fetch [of ?e] pe op e by (simp add: cell_of_def)
  with ee have E: "\<exists>e. step ?e = Inl (e, ?e) \<and>
      (e = IndexError_out_of_bounds \<or> e = ValueError_unpack)" by blast
  from A B C D ae ce E show ?thesis by simp
qed

text \<open>
  The claim as stated fails on the program 1101,4,5,-1,99 with 8 cells: the store to
  address -1 does not raise, it writes 9 into cell 7.
\<close>

theorem negative_address_counterexample:
  "init [1101, 4, 5, -1, 99] False 8 =
     Inr \<lparr>code = [1101, 4, 5, -1, 99, 0, 0, 0], pointer = 0, relative_base = 0,
        input = [], output_log = [], allow_pausing = False, unpaused_flag = True,
        continue_flag = True\<rparr> \<and>
   run \<lparr>code = [1101, 4, 5, -1, 99, 0, 0, 0], pointer = 0, relative_base = 0,
        input = [], output_log = [], allow_pausing = False, unpaused_flag = True,
        continue_flag = True\<rparr> PyNone =
     Some (Inr \<lparr>code = [1101, 4, 5, -1, 99, 0, 0, 9], pointer = 5, relative_base = 0,
        input = [None], output_log = [], allow_pausing = False, unpaused_flag = True,
        continue_flag = False\<rparr>)"
  by code_simp

end
